theory Spec2Isabelle
  imports Complex_Main "HOL-Library.Log_Nat"
begin

section \<open>Python strings: whitespace, \<open>str.split()\<close> and \<open>str.join\<close>\<close>

text \<open>
  Strings are lists of 8-bit characters, read as the code points below 256.
  \<open>isspace\<close> is Python's \<open>str.isspace\<close> on those code points: TAB, LF, VT, FF, CR,
  the separators 0x1C to 0x1F, the space, NEL (0x85) and the no-break space (0xA0).
\<close>

definition isspace :: "char \<Rightarrow> bool" where
  "isspace c = (of_char c \<in> ({9..13} \<union> {28..32} \<union> {133, 160} :: nat set))"

text \<open>
  \<open>text.split()\<close> with no argument: runs of whitespace separate the words, and no empty
  word is produced. \<open>split_from cur s\<close> scans \<open>s\<close> with the word \<open>cur\<close> under construction.
\<close>

fun split_from :: "string \<Rightarrow> string \<Rightarrow> string list" where
  "split_from cur [] = (if cur = [] then [] else [cur])"
| "split_from cur (c # cs) =
     (if isspace c then (if cur = [] then split_from [] cs else cur # split_from [] cs)
      else split_from (cur @ [c]) cs)"

definition py_split :: "string \<Rightarrow> string list" where
  "py_split s = split_from [] s"

text \<open>\<open>sep.join(xs)\<close>.\<close>

fun py_join :: "string \<Rightarrow> string list \<Rightarrow> string" where
  "py_join sep [] = []"
| "py_join sep [x] = x"
| "py_join sep (x # y # ys) = x @ sep @ py_join sep (y # ys)"

section \<open>\<open>TextOverlay.wrap_text\<close>: greedy wrap by measured width\<close>

text \<open>
  The loop of \<open>wrap_text\<close> over the words, on the pair \<open>(wrapped_lines, current_line)\<close>.
  \<open>width_of\<close> is the measurement the source takes of the tentative line,
  \<open>textbbox((0, 0), test_line, font)[2] - textbbox(...)[0]\<close>.
\<close>

definition wrap_step ::
  "(string \<Rightarrow> int) \<Rightarrow> int \<Rightarrow> string \<Rightarrow> string list \<times> string list \<Rightarrow> string list \<times> string list"
where
  "wrap_step width_of max_width word st =
     (case st of (wrapped_lines, current_line) \<Rightarrow>
        let test_line = py_join '' '' (current_line @ [word]);
            text_width = width_of test_line
        in if text_width \<le> max_width then (wrapped_lines, current_line @ [word])
           else ((if current_line \<noteq> [] then wrapped_lines @ [py_join '' '' current_line]
                  else wrapped_lines),
                 [word]))"

definition wrap_lines :: "(string \<Rightarrow> int) \<Rightarrow> int \<Rightarrow> string \<Rightarrow> string list" where
  "wrap_lines width_of max_width text =
     (case fold (wrap_step width_of max_width) (py_split text) ([], []) of
        (wrapped_lines, current_line) \<Rightarrow>
          if current_line \<noteq> [] then wrapped_lines @ [py_join '' '' current_line]
          else wrapped_lines)"

definition wrap_text_measured :: "(string \<Rightarrow> int) \<Rightarrow> int \<Rightarrow> string \<Rightarrow> string" where
  "wrap_text_measured width_of max_width text =
     py_join [CHR 0x0A] (wrap_lines width_of max_width text)"


section \<open>Python numbers: \<open>int()\<close> and double-precision floats\<close>

text \<open>
  Python's \<open>float\<close> is an IEEE 754 double. A double is modelled by the rational it denotes,
  and each operation rounds its exact result to the nearest double, ties to even
  (\<open>fl\<close>). Overflow and subnormal numbers are left out: every float of this program is
  zero or has a magnitude between \<open>2\<^sup>-\<^sup>1\<^sup>0\<^sup>0\<close> and \<open>2\<^sup>1\<^sup>0\<^sup>0\<close>.
  \<open>ilog2 q\<close> is the binary exponent \<open>\<lfloor>log\<^sub>2 q\<rfloor>\<close> of a positive rational.
\<close>

definition ilog2 :: "rat \<Rightarrow> int" where
  "ilog2 q = (if 1 \<le> q then bitlen \<lfloor>q\<rfloor> - 1 else - bitlen (\<lceil>1 / q\<rceil> - 1))"

definition round_half_even :: "rat \<Rightarrow> int" where
  "round_half_even y =
     (let f = \<lfloor>y\<rfloor>; r = y - of_int f
      in if r < 1 / 2 then f else if 1 / 2 < r then f + 1 else if even f then f else f + 1)"

definition fl :: "rat \<Rightarrow> rat" where
  "fl q = (if q = 0 then 0
           else let u = 2 powi (ilog2 \<bar>q\<bar> - 52) in of_int (round_half_even (q / u)) * u)"

definition fadd :: "rat \<Rightarrow> rat \<Rightarrow> rat" where "fadd a b = fl (a + b)"
definition fsub :: "rat \<Rightarrow> rat \<Rightarrow> rat" where "fsub a b = fl (a - b)"
definition fmul :: "rat \<Rightarrow> rat \<Rightarrow> rat" where "fmul a b = fl (a * b)"

text \<open>\<open>a / b\<close> for a non-zero divisor (true division of two ints is correctly rounded too).\<close>

definition fdiv :: "rat \<Rightarrow> rat \<Rightarrow> rat" where "fdiv a b = fl (a / b)"

text \<open>The float an int converts to (exact below \<open>2\<^sup>5\<^sup>3\<close>), and float literals.\<close>

definition float_of_int :: "int \<Rightarrow> rat" where "float_of_int n = fl (of_int n)"

definition lit_0_35 :: rat where "lit_0_35 = fl (35 / 100)"
definition lit_0_05 :: rat where "lit_0_05 = fl (5 / 100)"
definition lit_0_5 :: rat where "lit_0_5 = fl (5 / 10)"

text \<open>\<open>int(x)\<close> of a float: truncation toward zero.\<close>

definition py_int :: "rat \<Rightarrow> int" where
  "py_int x = (if 0 \<le> x then \<lfloor>x\<rfloor> else \<lceil>x\<rceil>)"

section \<open>Exceptions\<close>

datatype exn =
    FileNotFoundError string
  | ValueError string
  | ZeroDivisionError string
  | OSError string

fun exn_message :: "exn \<Rightarrow> string" where
  "exn_message (FileNotFoundError m) = m"
| "exn_message (ValueError m) = m"
| "exn_message (ZeroDivisionError m) = m"
| "exn_message (OSError m) = m"

text \<open>A loop whose body may raise: the first exception ends it.\<close>

fun fold_exn :: "('a \<Rightarrow> 's \<Rightarrow> exn + 's) \<Rightarrow> 'a list \<Rightarrow> 's \<Rightarrow> exn + 's" where
  "fold_exn f [] s = Inr s"
| "fold_exn f (x # xs) s = (case f x s of Inl e \<Rightarrow> Inl e | Inr s' \<Rightarrow> fold_exn f xs s')"

section \<open>Paths: \<open>os.path.basename\<close>, \<open>os.path.splitext\<close>, \<open>os.path.join\<close> (POSIX)\<close>

definition basename :: "string \<Rightarrow> string" where
  "basename p = rev (takeWhile (\<lambda>c. c \<noteq> CHR ''/'') (rev p))"

text \<open>
  The root of \<open>splitext\<close> on a name without separator: the name up to its last dot,
  unless only dots stand before that dot (or there is no dot).
\<close>

definition splitext_root :: "string \<Rightarrow> string" where
  "splitext_root p =
     (if CHR ''.'' \<in> set p
      then let stem = rev (tl (dropWhile (\<lambda>c. c \<noteq> CHR ''.'') (rev p)))
           in if \<exists>c\<in>set stem. c \<noteq> CHR ''.'' then stem else p
      else p)"

definition path_join :: "string \<Rightarrow> string \<Rightarrow> string" where
  "path_join a b =
     (if b \<noteq> [] \<and> hd b = CHR ''/'' then b
      else if a = [] \<or> last a = CHR ''/'' then a @ b
      else a @ ''/'' @ b)"

section \<open>Raster images (Pillow, mode RGBA)\<close>

type_synonym rgba = "int \<times> int \<times> int \<times> int"

record image =
  img_width :: int
  img_height :: int
  img_pix :: "int \<Rightarrow> int \<Rightarrow> rgba"

definition Image_new :: "int \<times> int \<Rightarrow> rgba \<Rightarrow> image" where
  "Image_new dims color =
     \<lparr>img_width = fst dims, img_height = snd dims, img_pix = (\<lambda>x y. color)\<rparr>"

text \<open>
  \<open>ImageDraw.Draw(im).rectangle([x0, y0, x1, y1], fill=ink)\<close> on an RGBA image: the float
  coordinates are truncated to ints, both corners belong to the rectangle, it is clipped
  to the image, and every pixel of it is \<^emph>\<open>set\<close> to the ink, alpha included (a drawing
  context of the image's own mode does not blend).
\<close>

definition rectangle :: "image \<Rightarrow> rat \<times> rat \<times> rat \<times> rat \<Rightarrow> rgba \<Rightarrow> image" where
  "rectangle im box ink =
     (case box of (x0, y0, x1, y1) \<Rightarrow>
        im\<lparr>img_pix := (\<lambda>x y.
             if py_int x0 \<le> x \<and> x \<le> py_int x1 \<and> py_int y0 \<le> y \<and> y \<le> py_int y1 \<and>
                0 \<le> x \<and> x < img_width im \<and> 0 \<le> y \<and> y < img_height im
             then ink else img_pix im x y)\<rparr>)"

text \<open>
  \<open>Image.alpha_composite(dst, src)\<close>, per pixel, in Pillow's integer arithmetic:
  \<open>shift_div255 a = ((a >> 8) + a) >> 8\<close>, seven extra bits of precision.
\<close>

definition shift_div255 :: "int \<Rightarrow> int" where
  "shift_div255 a = (a div 256 + a) div 256"

definition composite_pixel :: "rgba \<Rightarrow> rgba \<Rightarrow> rgba" where
  "composite_pixel dst src =
     (case dst of (dr, dg, db, da) \<Rightarrow> case src of (sr, sg, sb, sa) \<Rightarrow>
        if sa = 0 then dst
        else let blend = da * (255 - sa);
                 outa255 = sa * 255 + blend;
                 coef1 = sa * 255 * 255 * 128 div outa255;
                 coef2 = 255 * 128 - coef1
             in (shift_div255 (sr * coef1 + dr * coef2 + 128 * 128) div 128,
                 shift_div255 (sg * coef1 + dg * coef2 + 128 * 128) div 128,
                 shift_div255 (sb * coef1 + db * coef2 + 128 * 128) div 128,
                 shift_div255 (outa255 + 128)))"

definition alpha_composite :: "image \<Rightarrow> image \<Rightarrow> image" where
  "alpha_composite dst src =
     dst\<lparr>img_pix := (\<lambda>x y. composite_pixel (img_pix dst x y) (img_pix src x y))\<rparr>"

text \<open>\<open>im.convert("RGB")\<close>: the alpha channel is dropped; every pixel is opaque.\<close>

definition convert_RGB :: "image \<Rightarrow> image" where
  "convert_RGB im =
     im\<lparr>img_pix := (\<lambda>x y. case img_pix im x y of (r, g, b, a) \<Rightarrow> (r, g, b, 255))\<rparr>"

section \<open>The vignette stage (both overlays)\<close>

text \<open>
  The rectangle of band \<open>i\<close>, as the source computes it in floats:
  \<open>[width/2 - width/2 * (1 - i/100), height/2 - height/2 * (1 - i/100),
    width/2 + width/2 * (1 - i/100), height/2 + height/2 * (1 - i/100)]\<close>.
\<close>

definition band_box :: "int \<Rightarrow> int \<Rightarrow> int \<Rightarrow> rat \<times> rat \<times> rat \<times> rat" where
  "band_box width height i =
     (let shrink = fsub 1 (fdiv (of_int i) 100);
          half_w = fdiv (of_int width) 2;
          half_h = fdiv (of_int height) 2
      in (fsub half_w (fmul half_w shrink), fsub half_h (fmul half_h shrink),
          fadd half_w (fmul half_w shrink), fadd half_h (fmul half_h shrink)))"

text \<open>
  The overlay after the loop \<open>for i in range(100)\<close>, and the image after
  \<open>Image.alpha_composite(img_with_text, overlay)\<close>.
\<close>

definition vignette_overlay :: "int \<Rightarrow> int \<Rightarrow> image" where
  "vignette_overlay width height =
     fold (\<lambda>i overlay. rectangle overlay (band_box width height (int i)) (0, 0, 0, 100 - int i))
       [0..<100] (Image_new (width, height) (0, 0, 0, 0))"

definition vignette :: "image \<Rightarrow> image" where
  "vignette img = alpha_composite img (vignette_overlay (img_width img) (img_height img))"


section \<open>The Pillow, \<open>os\<close> and \<open>textwrap\<close> operations the overlays call\<close>

text \<open>
  A loaded font (\<open>ImageFont.FreeTypeFont\<close>) keeps the file and the pixel size it was
  loaded with.
\<close>

record font =
  font_file :: string
  font_size :: int

datatype align = AlignLeft | AlignCenter

text \<open>
  What the library and the file system do is a parameter of the model:
  \<^item> \<open>Image_open p\<close>: \<open>Image.open(p).convert("RGBA")\<close>, the decoded image or the exception;
  \<^item> \<open>truetype_error p n\<close>: the exception \<open>ImageFont.truetype(p, n)\<close> raises, if any;
  \<^item> \<open>textbbox f s a\<close>: \<open>draw.textbbox((0, 0), s, font=f, align=a)\<close>, as
    \<open>(left, top, right, bottom)\<close>; it does not depend on the image drawn on;
  \<^item> \<open>draw_text im xy s f ink a\<close>: \<open>ImageDraw.Draw(im).text(xy, s, font=f, fill=ink, align=a)\<close>,
    the image with the glyphs drawn or the exception;
  \<^item> \<open>save_error im p\<close>: the exception \<open>im.save(p, quality=95)\<close> raises, if any;
  \<^item> \<open>textwrap_wrap s n\<close>: \<open>textwrap.wrap(s, width=n)\<close> of the standard library (it raises
    \<open>ValueError\<close> when \<open>n \<le> 0\<close>).
\<close>

record backend =
  Image_open :: "string \<Rightarrow> exn + image"
  truetype_error :: "string \<Rightarrow> int \<Rightarrow> exn option"
  textbbox :: "font \<Rightarrow> string \<Rightarrow> align \<Rightarrow> int \<times> int \<times> int \<times> int"
  draw_text :: "image \<Rightarrow> int \<times> int \<Rightarrow> string \<Rightarrow> font \<Rightarrow> rgba \<Rightarrow> align \<Rightarrow> exn + image"
  save_error :: "image \<Rightarrow> string \<Rightarrow> exn option"
  textwrap_wrap :: "string \<Rightarrow> int \<Rightarrow> exn + string list"

definition ImageFont_truetype :: "backend \<Rightarrow> string \<Rightarrow> int \<Rightarrow> exn + font" where
  "ImageFont_truetype B path n =
     (case truetype_error B path n of
        Some e \<Rightarrow> Inl e
      | None \<Rightarrow> Inr \<lparr>font_file = path, font_size = n\<rparr>)"

text \<open>
  \<open>draw.textbbox(xy, s, font=f, align=a)\<close> at an integer position \<open>xy\<close>: Pillow measures
  a text from its anchor, so the box is the one measured at the origin, moved by \<open>xy\<close>.
  It is the box of what \<open>draw.text(xy, s, font=f, align=a)\<close> draws.
\<close>

definition textbbox_at :: "backend \<Rightarrow> int \<times> int \<Rightarrow> font \<Rightarrow> string \<Rightarrow> align \<Rightarrow> int \<times> int \<times> int \<times> int" where
  "textbbox_at B xy f s a =
     (case xy of (x, y) \<Rightarrow> case textbbox B f s a of (l, t, r, b) \<Rightarrow> (x + l, y + t, x + r, y + b))"

record os_env =
  path_exists :: "string \<Rightarrow> bool"
  makedirs_error :: "string \<Rightarrow> exn option"

section \<open>\<open>TextOverlay\<close> (text_overlay.py)\<close>

record overlay =
  font_path :: string
  output_dir :: string

definition system_fonts :: "string list" where
  "system_fonts =
     [''/usr/share/fonts/truetype/dejavu/DejaVuSans-Bold.ttf'',
      ''/usr/share/fonts/truetype/liberation/LiberationSans-Bold.ttf'',
      ''/usr/share/fonts/truetype/ubuntu/Ubuntu-Bold.ttf'',
      ''/usr/share/fonts/truetype/freefont/FreeSansBold.ttf'']"

text \<open>The loop \<open>for font in system_fonts: if os.path.exists(font): ...; break\<close>.\<close>

fun first_existing :: "(string \<Rightarrow> bool) \<Rightarrow> string list \<Rightarrow> string option" where
  "first_existing ex [] = None"
| "first_existing ex (f # fs) = (if ex f then Some f else first_existing ex fs)"

text \<open>
  \<open>TextOverlay.__init__(font_path, output_dir)\<close>. The argument \<open>font_path\<close> is \<open>None\<close> or a
  string, and \<open>if font_path and ...\<close> is false for \<open>None\<close> and for the empty string.
\<close>

definition TextOverlay_init :: "os_env \<Rightarrow> string option \<Rightarrow> string \<Rightarrow> exn + overlay" where
  "TextOverlay_init os fp out_dir =
     (case makedirs_error os out_dir of
        Some e \<Rightarrow> Inl e
      | None \<Rightarrow>
          (case fp of
             Some p \<Rightarrow>
               if p \<noteq> [] \<and> path_exists os p
               then Inr \<lparr>font_path = p, output_dir = out_dir\<rparr>
               else (case first_existing (path_exists os) system_fonts of
                       Some f \<Rightarrow> Inr \<lparr>font_path = f, output_dir = out_dir\<rparr>
                     | None \<Rightarrow> Inl (FileNotFoundError
                         ''No suitable font found. Please provide a valid font path.''))
           | None \<Rightarrow>
               (case first_existing (path_exists os) system_fonts of
                  Some f \<Rightarrow> Inr \<lparr>font_path = f, output_dir = out_dir\<rparr>
                | None \<Rightarrow> Inl (FileNotFoundError
                    ''No suitable font found. Please provide a valid font path.''))))"

text \<open>\<open>TextOverlay.wrap_text(text, font, max_width)\<close>: the greedy wrap on the font's widths.\<close>

definition text_width_of :: "backend \<Rightarrow> font \<Rightarrow> string \<Rightarrow> int" where
  "text_width_of B f s = (case textbbox B f s AlignLeft of (l, t, r, b) \<Rightarrow> r - l)"

definition wrap_text :: "backend \<Rightarrow> string \<Rightarrow> font \<Rightarrow> int \<Rightarrow> string" where
  "wrap_text B text f max_width = wrap_text_measured (text_width_of B f) max_width text"

text \<open>
  \<open>TextOverlay.draw_text_with_outline\<close>: the two nested loops over
  \<open>range(-outline_width, outline_width + 1)\<close>, then the main text.
\<close>

definition draw_text_with_outline ::
  "backend \<Rightarrow> image \<Rightarrow> int \<times> int \<Rightarrow> string \<Rightarrow> font \<Rightarrow> rgba \<Rightarrow> rgba \<Rightarrow> int \<Rightarrow> exn + image"
where
  "draw_text_with_outline B draw position text f fill outline outline_width =
     (case position of (x, y) \<Rightarrow>
        (case fold_exn (\<lambda>offset_x. fold_exn (\<lambda>offset_y d.
                 if offset_x = 0 \<and> offset_y = 0 then Inr d
                 else draw_text B d (x + offset_x, y + offset_y) text f outline AlignLeft)
               [- outline_width..outline_width])
             [- outline_width..outline_width] draw of
          Inl e \<Rightarrow> Inl e
        | Inr d \<Rightarrow> draw_text B d (x, y) text f fill AlignLeft))"

text \<open>The font size and the text position of \<open>add_text_to_image\<close>.\<close>

definition quote_font_size :: "int \<Rightarrow> int" where
  "quote_font_size width = py_int (fdiv (of_int width) 15)"

definition centered_position :: "int \<times> int \<Rightarrow> int \<times> int \<times> int \<times> int \<Rightarrow> int \<times> int" where
  "centered_position dims text_bbox =
     (case dims of (width, height) \<Rightarrow> case text_bbox of (l, t, r, b) \<Rightarrow>
        let text_width = r - l; text_height = b - t
        in ((width - text_width) div 2, (height - text_height) div 2))"

definition default_name :: "string \<Rightarrow> string \<Rightarrow> string \<Rightarrow> string" where
  "default_name out_dir image_path suffix =
     path_join out_dir (splitext_root (basename image_path) @ suffix)"

text \<open>
  The end of both renders: \<open>convert("RGB")\<close>, the output file name (the one given, or
  the base name of the image with a suffix, in the output directory) and \<open>save\<close>. The
  result is the exception raised or the file name returned, with the calls of \<open>save\<close>
  made (file name and image handed over).
\<close>

definition output_name :: "overlay \<Rightarrow> string \<Rightarrow> string option \<Rightarrow> string \<Rightarrow> string" where
  "output_name self image_path output_filename suffix =
     (case output_filename of
        Some n \<Rightarrow> (if n \<noteq> [] then n else default_name (output_dir self) image_path suffix)
      | None \<Rightarrow> default_name (output_dir self) image_path suffix)"

definition finish_render ::
  "backend \<Rightarrow> overlay \<Rightarrow> string \<Rightarrow> string option \<Rightarrow> string \<Rightarrow> image
     \<Rightarrow> (exn + string) \<times> (string \<times> image) list"
where
  "finish_render B self image_path output_filename suffix drawn =
     (let final = convert_RGB drawn;
          name = output_name self image_path output_filename suffix
      in (case save_error B final name of
            Some e \<Rightarrow> (Inl e, [(name, final)])
          | None \<Rightarrow> (Inr name, [(name, final)])))"

text \<open>The body of the \<open>try\<close> of \<open>add_text_to_image\<close>.\<close>

definition try_add_text ::
  "backend \<Rightarrow> overlay \<Rightarrow> string \<Rightarrow> string \<Rightarrow> string option
     \<Rightarrow> (exn + string) \<times> (string \<times> image) list"
where
  "try_add_text B self image_path text output_filename =
     (case Image_open B image_path of
        Inl e \<Rightarrow> (Inl e, [])
      | Inr img \<Rightarrow>
          (let width = img_width img; height = img_height img;
               img_with_text = vignette img;
               font_px = quote_font_size width
           in (case ImageFont_truetype B (font_path self) font_px of
                 Inl e \<Rightarrow> (Inl e, [])
               | Inr f \<Rightarrow>
                   (let margin = 20;
                        max_width = width - 2 * margin;
                        wrapped_text = wrap_text B text f max_width;
                        text_bbox = textbbox B f wrapped_text AlignLeft;
                        position = centered_position (width, height) text_bbox
                    in (case draw_text_with_outline B img_with_text position wrapped_text f
                               (255, 255, 255, 255) (0, 0, 0, 255) 2 of
                          Inl e \<Rightarrow> (Inl e, [])
                        | Inr drawn \<Rightarrow>
                            finish_render B self image_path output_filename ''_quote.jpg''
                              drawn)))))"

text \<open>
  \<open>add_text_to_image\<close>: what it returns (\<open>None\<close> after any exception), what it prints and
  the calls of \<open>save\<close> it made.
\<close>

record render_result =
  returned :: "string option"
  printed :: "string list"
  save_calls :: "(string \<times> image) list"

definition add_text_to_image ::
  "backend \<Rightarrow> overlay \<Rightarrow> string \<Rightarrow> string \<Rightarrow> string option \<Rightarrow> render_result"
where
  "add_text_to_image B self image_path text output_filename =
     (case try_add_text B self image_path text output_filename of
        (Inr name, calls) \<Rightarrow>
          \<lparr>returned = Some name, printed = [''Created: '' @ name], save_calls = calls\<rparr>
      | (Inl e, calls) \<Rightarrow>
          \<lparr>returned = None, printed = [''Error adding text to image: '' @ exn_message e],
           save_calls = calls\<rparr>)"


section \<open>\<open>POVTextOverlay\<close> (text_overlay_pov.py)\<close>

text \<open>
  \<open>POVTextOverlay.wrap_text(text, font, max_width)\<close>:
  \<open>textwrap.wrap(text, width=int(max_width / (font.size * 0.5)))\<close>, joined by newlines.
  \<open>char_budget\<close> is the \<open>width\<close> argument; the division raises when \<open>font.size * 0.5\<close> is zero.
\<close>

definition char_budget :: "int \<Rightarrow> int \<Rightarrow> int" where
  "char_budget font_px max_width =
     py_int (fdiv (float_of_int max_width) (fmul (float_of_int font_px) lit_0_5))"

definition pov_wrap_text :: "backend \<Rightarrow> string \<Rightarrow> font \<Rightarrow> int \<Rightarrow> exn + string" where
  "pov_wrap_text B text f max_width =
     (if fmul (float_of_int (font_size f)) lit_0_5 = 0
      then Inl (ZeroDivisionError ''float division by zero'')
      else (case textwrap_wrap B text (char_budget (font_size f) max_width) of
              Inl e \<Rightarrow> Inl e
            | Inr lines \<Rightarrow> Inr (py_join [CHR 0x0A] lines)))"

text \<open>\<open>POVTextOverlay.draw_text_with_outline\<close>: as above, with the alignment passed on.\<close>

definition pov_draw_text_with_outline ::
  "backend \<Rightarrow> image \<Rightarrow> int \<times> int \<Rightarrow> string \<Rightarrow> font \<Rightarrow> rgba \<Rightarrow> rgba \<Rightarrow> int \<Rightarrow> align
     \<Rightarrow> exn + image"
where
  "pov_draw_text_with_outline B draw position text f fill outline outline_width al =
     (case position of (x, y) \<Rightarrow>
        (case fold_exn (\<lambda>offset_x. fold_exn (\<lambda>offset_y d.
                 if offset_x = 0 \<and> offset_y = 0 then Inr d
                 else draw_text B d (x + offset_x, y + offset_y) text f outline al)
               [- outline_width..outline_width])
             [- outline_width..outline_width] draw of
          Inl e \<Rightarrow> Inl e
        | Inr d \<Rightarrow> draw_text B d (x, y) text f fill al))"

text \<open>The font sizes and the two text positions of \<open>add_pov_text_to_image\<close>.\<close>

definition pov_font_size :: "int \<Rightarrow> int" where
  "pov_font_size width = py_int (fdiv (of_int width) 12)"

definition pov_quote_font_size :: "int \<Rightarrow> int" where
  "pov_quote_font_size width = py_int (fdiv (of_int width) 18)"

definition pov_position :: "int \<times> int \<Rightarrow> int \<times> int \<times> int \<times> int \<Rightarrow> int \<times> int" where
  "pov_position dims pov_bbox =
     (case dims of (width, height) \<Rightarrow> case pov_bbox of (l, t, r, b) \<Rightarrow>
        let pov_width = r - l
        in ((width - pov_width) div 2, py_int (fmul (float_of_int height) lit_0_35)))"

definition quote_position ::
  "int \<times> int \<Rightarrow> int \<times> int \<times> int \<times> int \<Rightarrow> int \<times> int \<times> int \<times> int \<Rightarrow> int \<times> int"
where
  "quote_position dims pov_bbox quote_bbox =
     (case dims of (width, height) \<Rightarrow> case pov_bbox of (pl, pt, pr, pb) \<Rightarrow>
      case quote_bbox of (l, t, r, b) \<Rightarrow>
        let pov_height = pb - pt;
            pov_y = py_int (fmul (float_of_int height) lit_0_35);
            quote_width = r - l
        in ((width - quote_width) div 2,
            pov_y + pov_height + py_int (fmul (float_of_int height) lit_0_05)))"

definition try_add_pov_text ::
  "backend \<Rightarrow> overlay \<Rightarrow> string \<Rightarrow> string \<Rightarrow> string option
     \<Rightarrow> (exn + string) \<times> (string \<times> image) list"
where
  "try_add_pov_text B self image_path quote_text output_filename =
     (case Image_open B image_path of
        Inl e \<Rightarrow> (Inl e, [])
      | Inr img \<Rightarrow>
          (let width = img_width img; height = img_height img;
               img_with_text = vignette img
           in (case ImageFont_truetype B (font_path self) (pov_font_size width) of
                 Inl e \<Rightarrow> (Inl e, [])
               | Inr pov_font \<Rightarrow>
           (case ImageFont_truetype B (font_path self) (pov_quote_font_size width) of
                 Inl e \<Rightarrow> (Inl e, [])
               | Inr quote_font \<Rightarrow>
                   (let pov_text = ''POV'';
                        pov_bbox = textbbox B pov_font pov_text AlignLeft;
                        pov_xy = pov_position (width, height) pov_bbox;
                        margin = 40;
                        max_width = width - 2 * margin
                    in (case pov_wrap_text B quote_text quote_font max_width of
                          Inl e \<Rightarrow> (Inl e, [])
                        | Inr wrapped_quote \<Rightarrow>
                   (let quote_bbox = textbbox B quote_font wrapped_quote AlignCenter;
                        quote_xy = quote_position (width, height) pov_bbox quote_bbox
                    in (case pov_draw_text_with_outline B img_with_text pov_xy pov_text pov_font
                               (255, 255, 255, 255) (0, 0, 0, 255) 2 AlignCenter of
                          Inl e \<Rightarrow> (Inl e, [])
                        | Inr drawn1 \<Rightarrow>
                       (case pov_draw_text_with_outline B drawn1 quote_xy wrapped_quote quote_font
                               (255, 255, 255, 255) (0, 0, 0, 255) 2 AlignCenter of
                          Inl e \<Rightarrow> (Inl e, [])
                        | Inr drawn2 \<Rightarrow>
                            finish_render B self image_path output_filename
                              ''_pov_quote_centered.jpg'' drawn2)))))))))"

definition add_pov_text_to_image ::
  "backend \<Rightarrow> overlay \<Rightarrow> string \<Rightarrow> string \<Rightarrow> string option \<Rightarrow> render_result"
where
  "add_pov_text_to_image B self image_path quote_text output_filename =
     (case try_add_pov_text B self image_path quote_text output_filename of
        (Inr name, calls) \<Rightarrow>
          \<lparr>returned = Some name, printed = [''Created: '' @ name], save_calls = calls\<rparr>
      | (Inl e, calls) \<Rightarrow>
          \<lparr>returned = None,
           printed = [''Error adding centered POV text to image: '' @ exn_message e],
           save_calls = calls\<rparr>)"


section \<open>Auxiliary notions for the proofs\<close>

text \<open>A word of \<open>split()\<close>: not empty, no whitespace in it.\<close>

definition good_word :: "string \<Rightarrow> bool" where
  "good_word w = (w \<noteq> [] \<and> (\<forall>c\<in>set w. \<not> isspace c))"

text \<open>
  A group of words fits when the width of the words joined by spaces is at most
  \<open>max_width\<close>, or it is a single word that is wider than \<open>max_width\<close> by itself.
\<close>

definition fits :: "(string \<Rightarrow> int) \<Rightarrow> int \<Rightarrow> string list \<Rightarrow> bool" where
  "fits width_of max_width g =
     (width_of (py_join '' '' g) \<le> max_width \<or> (\<exists>word. g = [word] \<and> max_width < width_of word))"

text \<open>
  The invariant of the loop of \<open>wrap_text\<close>: after the words \<open>seen\<close>, the closed lines
  are groups of those words, in order, followed by the words of the current line; every
  closed line fits, and so does the current line.
\<close>

definition wrap_inv :: "(string \<Rightarrow> int) \<Rightarrow> int \<Rightarrow> string list \<Rightarrow> string list \<times> string list \<Rightarrow> bool" where
  "wrap_inv width_of max_width seen st =
     (\<exists>gs. fst st = map (py_join '' '') gs \<and> concat gs @ snd st = seen \<and>
        (\<forall>g\<in>set gs. g \<noteq> [] \<and> fits width_of max_width g) \<and>
        (snd st \<noteq> [] \<longrightarrow> fits width_of max_width (snd st)))"

text \<open>
  The calls of \<open>draw.text\<close> of a drawing, as position, text, font, ink and alignment;
  \<open>run_draws\<close> makes them in order on an image and stops at the first exception.
\<close>

type_synonym draw_call = "(int \<times> int) \<times> string \<times> font \<times> rgba \<times> align"

definition run_draws :: "backend \<Rightarrow> draw_call list \<Rightarrow> image \<Rightarrow> exn + image" where
  "run_draws B calls d =
     fold_exn (\<lambda>call d. case call of (xy, s, f, ink, al) \<Rightarrow> draw_text B d xy s f ink al) calls d"

text \<open>The offsets of the outline: the pairs of the two ranges, the centre left out.\<close>

definition outline_offsets :: "int \<Rightarrow> (int \<times> int) list" where
  "outline_offsets w = filter (\<lambda>(dx, dy). \<not> (dx = 0 \<and> dy = 0)) (List.product [- w..w] [- w..w])"

text \<open>
  A stand-in for the library, for concrete runs: a 1080 x 1920 background of the colour
  (20, 20, 30) behind every path but one, a font whose text is half its size wide per
  character and marks the anchor pixel when drawn, a disk that never fails.
\<close>

definition demo_backend :: backend where
  "demo_backend =
     \<lparr>Image_open = (\<lambda>p. if p = ''missing.jpg''
                          then Inl (FileNotFoundError ''No such file or directory: missing.jpg'')
                          else Inr (Image_new (1080, 1920) (20, 20, 30, 255))),
      truetype_error = (\<lambda>p n. if n \<le> 0 then Some (ValueError ''font size must be greater than 0'')
                               else None),
      textbbox = (\<lambda>f s a. (0, 0, int (length s) * font_size f div 2, font_size f)),
      draw_text = (\<lambda>im xy s f ink a.
                     if s = ''unprintable'' then Inl (OSError ''invalid glyph data'')
                     else Inr (rectangle im (of_int (fst xy), of_int (snd xy),
                                             of_int (fst xy), of_int (snd xy)) ink)),
      save_error = (\<lambda>im p. None),
      textwrap_wrap = (\<lambda>s n. if n \<le> 0 then Inl (ValueError ''invalid width (must be > 0)'')
                              else Inr (py_split s))\<rparr>"

text \<open>
  The same stand-in with the metrics of an actual font. Pillow anchors a text at the
  ascender line of the font, and the ink of the letters starts below it: the box measured
  at the origin has a positive top. In DejaVu Sans Bold, the first font of
  \<open>system_fonts\<close>, the ascender is 1901 units of 2048 and the tallest letters reach 1556,
  which leaves 12 pixels at the size 72; here the top is a sixth of the size. The letter
  \<open>j\<close> of that font starts 68 units left of the pen position; here a text that begins with
  \<open>j\<close> has its left edge a thirtieth of the size left of the origin.
\<close>

definition metric_backend :: backend where
  "metric_backend =
     demo_backend\<lparr>textbbox := (\<lambda>f s a.
        let l = (if s \<noteq> [] \<and> hd s = CHR ''j'' then - (font_size f div 30) else 0);
            t = font_size f div 6
        in (l, t, l + int (length s) * font_size f div 2, t + font_size f))\<rparr>"

text \<open>
  The two ends of band \<open>i\<close> along an axis of length \<open>v\<close>, the pixels a band covers, and
  the overlay after the first \<open>n\<close> rectangles of the loop.
\<close>

definition band_lo :: "int \<Rightarrow> int \<Rightarrow> rat" where
  "band_lo v i = fsub (fdiv (of_int v) 2) (fmul (fdiv (of_int v) 2) (fsub 1 (fdiv (of_int i) 100)))"

definition band_hi :: "int \<Rightarrow> int \<Rightarrow> rat" where
  "band_hi v i = fadd (fdiv (of_int v) 2) (fmul (fdiv (of_int v) 2) (fsub 1 (fdiv (of_int i) 100)))"

definition in_band :: "int \<Rightarrow> int \<Rightarrow> int \<Rightarrow> int \<Rightarrow> int \<Rightarrow> bool" where
  "in_band width height i x y =
     (py_int (band_lo width i) \<le> x \<and> x \<le> py_int (band_hi width i) \<and>
      py_int (band_lo height i) \<le> y \<and> y \<le> py_int (band_hi height i))"

definition overlay_upto :: "int \<Rightarrow> int \<Rightarrow> nat \<Rightarrow> image" where
  "overlay_upto width height n =
     fold (\<lambda>i overlay. rectangle overlay (band_box width height (int i)) (0, 0, 0, 100 - int i))
       [0..<n] (Image_new (width, height) (0, 0, 0, 0))"

section \<open>Words and lines of the greedy wrap\<close>

lemma split_from_words:
  "(\<forall>c\<in>set cur. \<not> isspace c) \<Longrightarrow> w \<in> set (split_from cur s) \<Longrightarrow> good_word w"
proof (induction s arbitrary: cur)
  case Nil
  then show ?case by (simp add: good_word_def split: if_splits)
next
  case (Cons c cs)
  show ?case
  proof (cases "isspace c")
    case True
    then show ?thesis using Cons.prems Cons.IH[of "[]"]
      by (cases "cur = []") (auto simp: good_word_def)
  next
    case False
    then show ?thesis using Cons.prems Cons.IH[of "cur @ [c]"] by simp
  qed
qed

lemma py_split_words: "w \<in> set (py_split s) \<Longrightarrow> good_word w"
  unfolding py_split_def using split_from_words[of "[]" w s] by simp










lemma wrap_step_inv:
  assumes "wrap_inv w mw seen st"
  shows "wrap_inv w mw (seen @ [word]) (wrap_step w mw word st)"
proof -
  obtain wl cur where st: "st = (wl, cur)" by (cases st)
  from assms st obtain gs where gs: "wl = map (py_join '' '') gs" "concat gs @ cur = seen"
    "\<forall>g\<in>set gs. g \<noteq> [] \<and> fits w mw g" "cur \<noteq> [] \<longrightarrow> fits w mw cur"
    unfolding wrap_inv_def by auto
  show ?thesis
  proof (cases "w (py_join '' '' (cur @ [word])) \<le> mw")
    case True
    then have "wrap_step w mw word st = (wl, cur @ [word])"
      by (simp add: wrap_step_def st)
    moreover have "fits w mw (cur @ [word])" using True by (simp add: fits_def)
    ultimately show ?thesis unfolding wrap_inv_def using gs
      by (intro exI[of _ gs]) simp
  next
    case False
    have f1: "fits w mw [word]" by (auto simp: fits_def)
    show ?thesis
    proof (cases "cur = []")
      case True
      then have "wrap_step w mw word st = (wl, [word])"
        using False by (simp add: wrap_step_def st)
      then show ?thesis unfolding wrap_inv_def using gs f1 True
        by (intro exI[of _ gs]) simp
    next
      case nonempty: False
      then have "wrap_step w mw word st = (wl @ [py_join '' '' cur], [word])"
        using False by (simp add: wrap_step_def st)
      then show ?thesis unfolding wrap_inv_def using gs f1 nonempty
        by (intro exI[of _ "gs @ [cur]"]) simp
    qed
  qed
qed

lemma wrap_fold_inv:
  "wrap_inv w mw seen st \<Longrightarrow> wrap_inv w mw (seen @ ws) (fold (wrap_step w mw) ws st)"
proof (induction ws arbitrary: seen st)
  case Nil then show ?case by simp
next
  case (Cons x xs)
  from Cons.IH[OF wrap_step_inv[OF Cons.prems, of x]] show ?case by simp
qed

lemma wrap_lines_groups:
  "\<exists>gs. wrap_lines w mw text = map (py_join '' '') gs \<and> concat gs = py_split text \<and>
        (\<forall>g\<in>set gs. g \<noteq> [] \<and> fits w mw g)"
proof -
  have "wrap_inv w mw [] ([], [])" by (simp add: wrap_inv_def)
  from wrap_fold_inv[OF this, of "py_split text"]
  have inv: "wrap_inv w mw (py_split text) (fold (wrap_step w mw) (py_split text) ([], []))" by simp
  obtain wl cur where r: "fold (wrap_step w mw) (py_split text) ([], []) = (wl, cur)"
    by (cases "fold (wrap_step w mw) (py_split text) ([], [])")
  from inv r obtain gs where gs: "wl = map (py_join '' '') gs" "concat gs @ cur = py_split text"
    "\<forall>g\<in>set gs. g \<noteq> [] \<and> fits w mw g" "cur \<noteq> [] \<longrightarrow> fits w mw cur"
    unfolding wrap_inv_def by auto
  show ?thesis
  proof (cases "cur = []")
    case True
    then show ?thesis using gs r by (intro exI[of _ gs]) (simp add: wrap_lines_def)
  next
    case False
    then show ?thesis using gs r by (intro exI[of _ "gs @ [cur]"]) (simp add: wrap_lines_def)
  qed
qed


lemma length_py_join: "word \<in> set ws \<Longrightarrow> length word \<le> length (py_join sep ws)"
  by (induction ws rule: induct_list012) auto

lemma split_from_Nil_iff: "split_from cur s = [] \<longleftrightarrow> cur = [] \<and> (\<forall>c\<in>set s. isspace c)"
  by (induction s arbitrary: cur) auto

lemma py_split_Nil_iff: "py_split s = [] \<longleftrightarrow> (\<forall>c\<in>set s. isspace c)"
  by (simp add: py_split_def split_from_Nil_iff)

text \<open>
  C2. Every line of \<open>TextOverlay.wrap_text\<close> is a non-empty group of whole words of the
  caption, the groups taken together are the words of the caption in order, and each line
  has a measured width of at most \<open>max_width\<close> unless it consists of one word that is wider
  than \<open>max_width\<close> by itself. When no string is narrower than a word it contains, a word
  wider than \<open>max_width\<close> stands alone on its line. This holds for every \<open>max_width\<close>.
\<close>

theorem wrap_text_lines_fit:
  "\<exists>groups. wrap_text_measured width_of max_width text =
                py_join [CHR 0x0A] (map (py_join '' '') groups) \<and>
     concat groups = py_split text \<and>
     (\<forall>g\<in>set groups. g \<noteq> [] \<and>
        (width_of (py_join '' '' g) \<le> max_width \<or>
         (\<exists>word. g = [word] \<and> max_width < width_of word))) \<and>
     (\<forall>word\<in>set (concat groups). word \<noteq> [] \<and> (\<forall>c\<in>set word. \<not> isspace c)) \<and>
     ((\<forall>ws word. word \<in> set ws \<longrightarrow> width_of word \<le> width_of (py_join '' '' ws)) \<longrightarrow>
      (\<forall>g\<in>set groups. \<forall>word\<in>set g. max_width < width_of word \<longrightarrow> g = [word]))"
proof -
  from wrap_lines_groups[of width_of max_width "text"] obtain gs where
    gs: "wrap_lines width_of max_width text = map (py_join '' '') gs"
        "concat gs = py_split text"
        "\<forall>g\<in>set gs. g \<noteq> [] \<and> fits width_of max_width g"
    by blast
  have a: "wrap_text_measured width_of max_width text = py_join [CHR 0x0A] (map (py_join '' '') gs)"
    by (simp add: wrap_text_measured_def gs(1))
  have c: "\<forall>g\<in>set gs. g \<noteq> [] \<and>
        (width_of (py_join '' '' g) \<le> max_width \<or>
         (\<exists>word. g = [word] \<and> max_width < width_of word))"
    using gs(3) by (simp add: fits_def)
  have d: "\<forall>word\<in>set (concat gs). word \<noteq> [] \<and> (\<forall>c\<in>set word. \<not> isspace c)"
    using py_split_words[of _ "text"] unfolding gs(2) good_word_def by blast
  have e: "(\<forall>ws word. word \<in> set ws \<longrightarrow> width_of word \<le> width_of (py_join '' '' ws)) \<longrightarrow>
      (\<forall>g\<in>set gs. \<forall>word\<in>set g. max_width < width_of word \<longrightarrow> g = [word])"
  proof (intro impI ballI)
    fix g word
    assume mono: "\<forall>ws word. word \<in> set ws \<longrightarrow> width_of word \<le> width_of (py_join '' '' ws)"
      and g: "g \<in> set gs" and wd: "word \<in> set g" and big: "max_width < width_of word"
    from mono wd have "width_of word \<le> width_of (py_join '' '' g)" by blast
    with big have "\<not> width_of (py_join '' '' g) \<le> max_width" by simp
    with c g obtain word' where "g = [word']" by blast
    with wd show "g = [word]" by simp
  qed
  from a gs(2) c d e show ?thesis by blast
qed

theorem wrap_text_lines_fit_witness:
  "wrap_text_measured (\<lambda>s. int (length s)) 5 ''  ab  cd e fghijkl m'' =
     ''ab cd'' @ [CHR 0x0A] @ ''e'' @ [CHR 0x0A] @ ''fghijkl'' @ [CHR 0x0A] @ ''m'' \<and>
   (\<exists>groups. wrap_text_measured (\<lambda>s. int (length s)) 5 ''  ab  cd e fghijkl m'' =
                py_join [CHR 0x0A] (map (py_join '' '') groups) \<and>
     concat groups = py_split ''  ab  cd e fghijkl m'' \<and>
     (\<forall>g\<in>set groups. g \<noteq> [] \<and>
        (int (length (py_join '' '' g)) \<le> 5 \<or> (\<exists>word. g = [word] \<and> 5 < int (length word)))) \<and>
     (\<forall>g\<in>set groups. \<forall>word\<in>set g. 5 < int (length word) \<longrightarrow> g = [word]))"
proof -
  have v: "wrap_text_measured (\<lambda>s. int (length s)) 5 ''  ab  cd e fghijkl m'' =
     ''ab cd'' @ [CHR 0x0A] @ ''e'' @ [CHR 0x0A] @ ''fghijkl'' @ [CHR 0x0A] @ ''m''"
    by code_simp
  have m: "\<forall>ws word. word \<in> set ws \<longrightarrow>
       int (length word) \<le> int (length (py_join '' '' ws))"
    by (simp add: length_py_join)
  from wrap_text_lines_fit[of "\<lambda>s. int (length s)" 5 "''  ab  cd e fghijkl m''"] m
  have "\<exists>groups. wrap_text_measured (\<lambda>s. int (length s)) 5 ''  ab  cd e fghijkl m'' =
                py_join [CHR 0x0A] (map (py_join '' '') groups) \<and>
     concat groups = py_split ''  ab  cd e fghijkl m'' \<and>
     (\<forall>g\<in>set groups. g \<noteq> [] \<and>
        (int (length (py_join '' '' g)) \<le> 5 \<or> (\<exists>word. g = [word] \<and> 5 < int (length word)))) \<and>
     (\<forall>g\<in>set groups. \<forall>word\<in>set g. 5 < int (length word) \<longrightarrow> g = [word])"
    by blast
  with v show ?thesis by blast
qed



section \<open>Font resolution\<close>

lemma first_existing_None: "first_existing ex fs = None \<longleftrightarrow> (\<forall>f\<in>set fs. \<not> ex f)"
  by (induction fs) simp_all

lemma first_existing_at:
  "i < length fs \<Longrightarrow> ex (fs ! i) \<Longrightarrow> (\<forall>j<i. \<not> ex (fs ! j)) \<Longrightarrow> first_existing ex fs = Some (fs ! i)"
proof (induction fs arbitrary: i)
  case Nil then show ?case by simp
next
  case (Cons f fs)
  show ?case
  proof (cases i)
    case 0
    with Cons.prems show ?thesis by simp
  next
    case (Suc k)
    with Cons.prems have nf: "\<not> ex f" by auto
    from Suc Cons.prems have "k < length fs" "ex (fs ! k)" "\<forall>j<k. \<not> ex (fs ! j)" by auto
    from Cons.IH[OF this] nf Suc show ?thesis by simp
  qed
qed

text \<open>
  C5, as amended. \<open>TextOverlay.__init__\<close> first calls \<open>os.makedirs\<close> on the output
  directory, and an exception of that call ends the construction, whatever fonts exist.
  When the output directory can be made: a given, non-empty font path that exists is
  selected whatever the fallback list holds; otherwise the first existing path of
  \<open>system_fonts\<close>, in its order, is selected; and construction raises exactly when neither
  the given path nor any fallback exists, with \<open>FileNotFoundError\<close>.
\<close>

theorem font_resolution:
  "(\<forall>e. makedirs_error os out_dir = Some e \<longrightarrow> TextOverlay_init os fp out_dir = Inl e) \<and>
   (makedirs_error os out_dir = None \<longrightarrow>
      (\<forall>p. fp = Some p \<and> p \<noteq> [] \<and> path_exists os p \<longrightarrow>
         TextOverlay_init os fp out_dir = Inr \<lparr>font_path = p, output_dir = out_dir\<rparr>) \<and>
      (\<not> (\<exists>p. fp = Some p \<and> p \<noteq> [] \<and> path_exists os p) \<longrightarrow>
         (\<forall>i<length system_fonts.
            path_exists os (system_fonts ! i) \<and> (\<forall>j<i. \<not> path_exists os (system_fonts ! j)) \<longrightarrow>
            TextOverlay_init os fp out_dir =
              Inr \<lparr>font_path = system_fonts ! i, output_dir = out_dir\<rparr>)) \<and>
      ((\<exists>e. TextOverlay_init os fp out_dir = Inl e) \<longleftrightarrow>
         \<not> (\<exists>p. fp = Some p \<and> p \<noteq> [] \<and> path_exists os p) \<and>
         (\<forall>f\<in>set system_fonts. \<not> path_exists os f)) \<and>
      (\<forall>e. TextOverlay_init os fp out_dir = Inl e \<longrightarrow>
         e = FileNotFoundError ''No suitable font found. Please provide a valid font path.''))"
proof (intro conjI allI impI)
  fix e assume "makedirs_error os out_dir = Some e"
  then show "TextOverlay_init os fp out_dir = Inl e" by (simp add: TextOverlay_init_def)
next
  fix p assume "makedirs_error os out_dir = None" "fp = Some p \<and> p \<noteq> [] \<and> path_exists os p"
  then show "TextOverlay_init os fp out_dir = Inr \<lparr>font_path = p, output_dir = out_dir\<rparr>"
    by (simp add: TextOverlay_init_def)
next
  fix i
  assume mk: "makedirs_error os out_dir = None"
    and no: "\<not> (\<exists>p. fp = Some p \<and> p \<noteq> [] \<and> path_exists os p)"
    and i: "i < length system_fonts"
    and ex: "path_exists os (system_fonts ! i) \<and> (\<forall>j<i. \<not> path_exists os (system_fonts ! j))"
  from first_existing_at[OF i, of "path_exists os"] ex
  have "first_existing (path_exists os) system_fonts = Some (system_fonts ! i)" by blast
  then show "TextOverlay_init os fp out_dir =
      Inr \<lparr>font_path = system_fonts ! i, output_dir = out_dir\<rparr>"
    using mk no by (cases fp) (auto simp: TextOverlay_init_def)
next
  assume mk: "makedirs_error os out_dir = None"
  show "(\<exists>e. TextOverlay_init os fp out_dir = Inl e) \<longleftrightarrow>
            \<not> (\<exists>p. fp = Some p \<and> p \<noteq> [] \<and> path_exists os p) \<and>
            (\<forall>f\<in>set system_fonts. \<not> path_exists os f)"
    using mk first_existing_None[of "path_exists os" system_fonts]
    by (cases fp; cases "first_existing (path_exists os) system_fonts")
       (auto simp: TextOverlay_init_def)
next
  fix e assume "makedirs_error os out_dir = None" "TextOverlay_init os fp out_dir = Inl e"
  then show "e = FileNotFoundError ''No suitable font found. Please provide a valid font path.''"
    by (cases fp; cases "first_existing (path_exists os) system_fonts")
       (auto simp: TextOverlay_init_def split: if_splits)
qed

theorem font_resolution_witness:
  "TextOverlay_init
     \<lparr>path_exists = (\<lambda>p. p = ''/usr/share/fonts/truetype/ubuntu/Ubuntu-Bold.ttf'' \<or>
                           p = ''/usr/share/fonts/truetype/freefont/FreeSansBold.ttf''),
      makedirs_error = (\<lambda>d. None)\<rparr>
     (Some ''/fonts/missing.ttf'') ''output'' =
   Inr \<lparr>font_path = ''/usr/share/fonts/truetype/ubuntu/Ubuntu-Bold.ttf'', output_dir = ''output''\<rparr> \<and>
   TextOverlay_init \<lparr>path_exists = (\<lambda>p. False), makedirs_error = (\<lambda>d. None)\<rparr> None ''output'' =
   Inl (FileNotFoundError ''No suitable font found. Please provide a valid font path.'') \<and>
   TextOverlay_init
     \<lparr>path_exists = (\<lambda>p. p = ''/fonts/Anton.ttf''),
      makedirs_error = (\<lambda>d. if d = ''/root/output'' then Some (OSError ''Permission denied'') else None)\<rparr>
     (Some ''/fonts/Anton.ttf'') ''/root/output'' = Inl (OSError ''Permission denied'')"
proof -
  let ?os = "\<lparr>path_exists = (\<lambda>p. p = ''/usr/share/fonts/truetype/ubuntu/Ubuntu-Bold.ttf'' \<or>
                           p = ''/usr/share/fonts/truetype/freefont/FreeSansBold.ttf''),
      makedirs_error = (\<lambda>d. None)\<rparr>"
  let ?no = "\<lparr>path_exists = (\<lambda>p. False), makedirs_error = (\<lambda>d. None)\<rparr>"
  let ?ro = "\<lparr>path_exists = (\<lambda>p. p = ''/fonts/Anton.ttf''),
      makedirs_error = (\<lambda>d. if d = ''/root/output'' then Some (OSError ''Permission denied'') else None)\<rparr>"
  have m: "makedirs_error ?os ''output'' = None" by simp
  note r1 = font_resolution[of ?os "''output''" "Some ''/fonts/missing.ttf''",
      THEN conjunct2, THEN mp, OF m]
  have a: "TextOverlay_init ?os (Some ''/fonts/missing.ttf'') ''output'' =
      Inr \<lparr>font_path = system_fonts ! 2, output_dir = ''output''\<rparr>"
    using r1 by (simp add: system_fonts_def All_less_Suc2 numeral_2_eq_2)
  have m2: "makedirs_error ?no ''output'' = None" by simp
  note r2 = font_resolution[of ?no "''output''" None, THEN conjunct2, THEN mp, OF m2]
  have "\<exists>e. TextOverlay_init ?no None ''output'' = Inl e"
    using r2 by simp
  then have b: "TextOverlay_init ?no None ''output'' =
      Inl (FileNotFoundError ''No suitable font found. Please provide a valid font path.'')"
    using r2 by auto
  have m3: "makedirs_error ?ro ''/root/output'' = Some (OSError ''Permission denied'')" by simp
  have c: "TextOverlay_init ?ro (Some ''/fonts/Anton.ttf'') ''/root/output'' =
      Inl (OSError ''Permission denied'')"
    using font_resolution[of ?ro "''/root/output''" "Some ''/fonts/Anton.ttf''",
        THEN conjunct1, THEN spec, THEN mp, OF m3] .
  from a b c show ?thesis by (simp add: system_fonts_def)
qed

text \<open>
  C5 as stated fails where the output directory cannot be made: with every font path
  present, the given one included, construction raises the exception of \<open>os.makedirs\<close>.
\<close>

theorem construction_raises_with_fonts_present:
  "TextOverlay_init
     \<lparr>path_exists = (\<lambda>p. True), makedirs_error = (\<lambda>d. Some (OSError ''Permission denied''))\<rparr>
     (Some ''/fonts/Anton.ttf'') ''/root/output'' = Inl (OSError ''Permission denied'') \<and>
   first_existing (\<lambda>p. True) system_fonts =
     Some ''/usr/share/fonts/truetype/dejavu/DejaVuSans-Bold.ttf''"
  by (simp add: TextOverlay_init_def system_fonts_def)

section \<open>Outline and fill\<close>

lemma fold_exn_append:
  "fold_exn g (xs @ ys) s = (case fold_exn g xs s of Inl e \<Rightarrow> Inl e | Inr s' \<Rightarrow> fold_exn g ys s')"
  by (induction xs arbitrary: s) (simp_all split: sum.splits)

lemma fold_exn_map: "fold_exn g (map k xs) s = fold_exn (\<lambda>x. g (k x)) xs s"
  by (induction xs arbitrary: s) (simp_all split: sum.splits)

lemma fold_exn_skip:
  "fold_exn (\<lambda>z d. if P z then Inr d else g z d) zs s = fold_exn g (filter (\<lambda>z. \<not> P z) zs) s"
  by (induction zs arbitrary: s) (simp_all split: sum.splits)

lemma fold_exn_nested:
  "fold_exn (\<lambda>a. fold_exn (\<lambda>b. h a b) ys) xs s = fold_exn (\<lambda>(a, b). h a b) (List.product xs ys) s"
proof (induction xs arbitrary: s)
  case Nil then show ?case by simp
next
  case (Cons x xs)
  show ?case
    by (simp add: fold_exn_append fold_exn_map Cons.IH split: sum.splits)
qed

lemma outline_loops:
  "fold_exn (\<lambda>offset_x. fold_exn (\<lambda>offset_y d.
       if offset_x = 0 \<and> offset_y = 0 then Inr d
       else draw_text B d (x + offset_x, y + offset_y) txt f outline al) [- w..w]) [- w..w] d =
   run_draws B (map (\<lambda>(dx, dy). ((x + dx, y + dy), txt, f, outline, al)) (outline_offsets w)) d"
proof -
  let ?P = "\<lambda>z::int \<times> int. case z of (dx, dy) \<Rightarrow> dx = 0 \<and> dy = 0"
  let ?g = "\<lambda>(z::int \<times> int) d. case z of (dx, dy) \<Rightarrow> draw_text B d (x + dx, y + dy) txt f outline al"
  have eq: "(\<lambda>(offset_x, offset_y) d.
       if offset_x = 0 \<and> offset_y = 0 then Inr d
       else draw_text B d (x + offset_x, y + offset_y) txt f outline al) =
     (\<lambda>z d. if ?P z then Inr d else ?g z d)"
    by (auto simp: fun_eq_iff)
  have "fold_exn (\<lambda>offset_x. fold_exn (\<lambda>offset_y d.
       if offset_x = 0 \<and> offset_y = 0 then Inr d
       else draw_text B d (x + offset_x, y + offset_y) txt f outline al) [- w..w]) [- w..w] d =
     fold_exn (\<lambda>z d. if ?P z then Inr d else ?g z d) (List.product [- w..w] [- w..w]) d"
    unfolding eq[symmetric] by (rule fold_exn_nested)
  also have "\<dots> = fold_exn ?g (filter (\<lambda>z. \<not> ?P z) (List.product [- w..w] [- w..w])) d"
    by (rule fold_exn_skip)
  also have "filter (\<lambda>z. \<not> ?P z) (List.product [- w..w] [- w..w]) = outline_offsets w"
    unfolding outline_offsets_def by (rule arg_cong[where f = "\<lambda>p. filter p _"]) (auto simp: fun_eq_iff)
  also have "fold_exn ?g (outline_offsets w) d =
      run_draws B (map (\<lambda>(dx, dy). ((x + dx, y + dy), txt, f, outline, al)) (outline_offsets w)) d"
    unfolding run_draws_def fold_exn_map
    by (rule arg_cong[where f = "\<lambda>g. fold_exn g _ d"]) (auto simp: fun_eq_iff)
  finally show ?thesis .
qed

lemma set_outline_offsets:
  "set (outline_offsets w) = {(dx, dy). - w \<le> dx \<and> dx \<le> w \<and> - w \<le> dy \<and> dy \<le> w} - {(0, 0)}"
  by (auto simp: outline_offsets_def)

lemma distinct_outline_offsets: "distinct (outline_offsets w)"
  by (simp add: outline_offsets_def distinct_product)

lemma length_outline_offsets:
  assumes "0 \<le> w"
  shows "int (length (outline_offsets w)) = (2 * w + 1)\<^sup>2 - 1"
proof -
  let ?xs = "List.product [- w..w] [- w..w]"
  have d: "distinct ?xs" by (simp add: distinct_product)
  have m: "(0, 0) \<in> set ?xs" using assms by simp
  have "length (filter (\<lambda>z. z = (0, 0)) ?xs) = card ({z. z = (0, 0)} \<inter> set ?xs)"
    using d by (rule distinct_length_filter)
  also have "{z. z = (0, 0)} \<inter> set ?xs = {(0, 0)}" using m by auto
  finally have one: "length (filter (\<lambda>z. z = (0, 0)) ?xs) = 1" by simp
  have "length (filter (\<lambda>z. z = (0, 0)) ?xs) + length (filter (\<lambda>z. \<not> z = (0, 0)) ?xs) = length ?xs"
    by (rule sum_length_filter_compl)
  with one have "length (filter (\<lambda>z. \<not> z = (0, 0)) ?xs) = length ?xs - 1" by simp
  moreover have "(\<lambda>z::int \<times> int. \<not> z = (0, 0)) = (\<lambda>(dx, dy). \<not> (dx = 0 \<and> dy = 0))" by auto
  ultimately have "length (outline_offsets w) = length ?xs - 1" by (simp add: outline_offsets_def)
  moreover have "length ?xs = nat (2 * w + 1) * nat (2 * w + 1)" by (simp add: algebra_simps)
  moreover have "1 \<le> nat (2 * w + 1) * nat (2 * w + 1)" using assms by (simp add: Suc_le_eq)
  ultimately have "int (length (outline_offsets w)) = int (nat (2 * w + 1) * nat (2 * w + 1)) - 1"
    by simp
  also have "\<dots> = (2 * w + 1)\<^sup>2 - 1" using assms by (simp add: power2_eq_square)
  finally show ?thesis .
qed

lemma run_draws_snoc:
  "run_draws B (cs @ [(xy, s, f, ink, al)]) d =
     (case run_draws B cs d of Inl e \<Rightarrow> Inl e | Inr d' \<Rightarrow> draw_text B d' xy s f ink al)"
  by (simp add: run_draws_def fold_exn_append split: sum.splits)

text \<open>
  C4. For an outline width \<open>w \<ge> 0\<close>, both \<open>draw_text_with_outline\<close> make the calls of
  \<open>draw.text\<close> in the outline colour at the origin moved by each pair \<open>(dx, dy)\<close> of
  \<open>[-w, w]\<close> but \<open>(0, 0)\<close>, each pair once, \<open>(2w + 1)\<^sup>2 - 1\<close> calls in all, and
  after them one call at the origin in the fill colour, which is the last call.
\<close>

theorem outline_then_fill:
  assumes "0 \<le> w"
  shows "\<exists>offs.
     set offs = {(dx, dy). - w \<le> dx \<and> dx \<le> w \<and> - w \<le> dy \<and> dy \<le> w} - {(0, 0)} \<and>
     distinct offs \<and>
     int (length offs) = (2 * w + 1)\<^sup>2 - 1 \<and>
     draw_text_with_outline B d (x, y) txt f fill outline w =
       run_draws B (map (\<lambda>(dx, dy). ((x + dx, y + dy), txt, f, outline, AlignLeft)) offs @
                    [((x, y), txt, f, fill, AlignLeft)]) d \<and>
     pov_draw_text_with_outline B d (x, y) txt f fill outline w al =
       run_draws B (map (\<lambda>(dx, dy). ((x + dx, y + dy), txt, f, outline, al)) offs @
                    [((x, y), txt, f, fill, al)]) d"
proof (intro exI[of _ "outline_offsets w"] conjI)
  show "set (outline_offsets w) =
      {(dx, dy). - w \<le> dx \<and> dx \<le> w \<and> - w \<le> dy \<and> dy \<le> w} - {(0, 0)}"
    by (rule set_outline_offsets)
  show "distinct (outline_offsets w)" by (rule distinct_outline_offsets)
  show "int (length (outline_offsets w)) = (2 * w + 1)\<^sup>2 - 1"
    using assms by (rule length_outline_offsets)
  show "draw_text_with_outline B d (x, y) txt f fill outline w =
       run_draws B (map (\<lambda>(dx, dy). ((x + dx, y + dy), txt, f, outline, AlignLeft))
                      (outline_offsets w) @ [((x, y), txt, f, fill, AlignLeft)]) d"
    by (simp add: draw_text_with_outline_def outline_loops run_draws_snoc)
  show "pov_draw_text_with_outline B d (x, y) txt f fill outline w al =
       run_draws B (map (\<lambda>(dx, dy). ((x + dx, y + dy), txt, f, outline, al))
                      (outline_offsets w) @ [((x, y), txt, f, fill, al)]) d"
    by (simp add: pov_draw_text_with_outline_def outline_loops run_draws_snoc)
qed

theorem outline_then_fill_witness:
  "\<exists>offs. length offs = 24 \<and> (0, 0) \<notin> set offs \<and> (2, - 1) \<in> set offs \<and> (- 2, 2) \<in> set offs \<and>
     draw_text_with_outline demo_backend (Image_new (100, 100) (0, 0, 0, 0)) (50, 50) ''Go''
         \<lparr>font_file = ''a.ttf'', font_size = 10\<rparr> (255, 255, 255, 255) (0, 0, 0, 255) 2 =
       run_draws demo_backend
         (map (\<lambda>(dx, dy). ((50 + dx, 50 + dy), ''Go'', \<lparr>font_file = ''a.ttf'', font_size = 10\<rparr>,
                 (0, 0, 0, 255), AlignLeft)) offs @
          [((50, 50), ''Go'', \<lparr>font_file = ''a.ttf'', font_size = 10\<rparr>, (255, 255, 255, 255),
            AlignLeft)])
         (Image_new (100, 100) (0, 0, 0, 0))"
proof -
  have h: "(0::int) \<le> 2" by simp
  from outline_then_fill[OF h, of demo_backend "Image_new (100, 100) (0, 0, 0, 0)" 50 50 "''Go''"
      "\<lparr>font_file = ''a.ttf'', font_size = 10\<rparr>" "(255, 255, 255, 255)" "(0, 0, 0, 255)" AlignLeft]
  obtain offs where o:
    "set offs = {(dx, dy). - 2 \<le> dx \<and> dx \<le> 2 \<and> - 2 \<le> dy \<and> dy \<le> 2} - {(0::int, 0::int)}"
    "int (length offs) = (2 * 2 + 1)\<^sup>2 - 1"
    "draw_text_with_outline demo_backend (Image_new (100, 100) (0, 0, 0, 0)) (50, 50) ''Go''
         \<lparr>font_file = ''a.ttf'', font_size = 10\<rparr> (255, 255, 255, 255) (0, 0, 0, 255) 2 =
       run_draws demo_backend
         (map (\<lambda>(dx, dy). ((50 + dx, 50 + dy), ''Go'', \<lparr>font_file = ''a.ttf'', font_size = 10\<rparr>,
                 (0, 0, 0, 255), AlignLeft)) offs @
          [((50, 50), ''Go'', \<lparr>font_file = ''a.ttf'', font_size = 10\<rparr>, (255, 255, 255, 255),
            AlignLeft)])
         (Image_new (100, 100) (0, 0, 0, 0))"
    by auto
  from o(2) have "length offs = 24" by simp
  moreover from o(1) have "(0, 0) \<notin> set offs" "(2, - 1) \<in> set offs" "(- 2, 2) \<in> set offs" by auto
  ultimately show ?thesis using o(3) by blast
qed

section \<open>Rounding to double precision\<close>

lemma rhe_le: "y \<le> of_int m \<Longrightarrow> round_half_even y \<le> m"
proof -
  assume a: "y \<le> of_int m"
  show ?thesis
  proof (cases "y = of_int m")
    case True
    then show ?thesis by (simp add: round_half_even_def)
  next
    case False
    with a have "y < of_int m" by simp
    then have "\<lfloor>y\<rfloor> < m" by (simp add: floor_less_iff)
    then show ?thesis by (simp add: round_half_even_def Let_def)
  qed
qed

lemma rhe_ge: "of_int m \<le> y \<Longrightarrow> m \<le> round_half_even y"
proof -
  assume a: "of_int m \<le> y"
  then have "m \<le> \<lfloor>y\<rfloor>" by (simp add: le_floor_iff)
  then show ?thesis by (simp add: round_half_even_def Let_def)
qed

lemma ilog2_less:
  assumes "0 < q" "q < 2 ^ k"
  shows "ilog2 q < int k"
proof (cases "1 \<le> q")
  case True
  have "\<lfloor>q\<rfloor> < 2 ^ k" using assms(2) by (simp add: floor_less_iff)
  then have "bitlen \<lfloor>q\<rfloor> \<le> int k" by (simp add: bitlen_le_iff_power)
  then show ?thesis using True by (simp add: ilog2_def)
next
  case False
  then have "q < 1" by simp
  with assms(1) have "1 < 1 / q" by simp
  then have "2 \<le> \<lceil>1 / q\<rceil>" by (simp add: le_ceiling_iff) 
  then have "0 < \<lceil>1 / q\<rceil> - 1" by simp
  then have "0 < bitlen (\<lceil>1 / q\<rceil> - 1)" using bitlen_eq_zero_iff[of "\<lceil>1 / q\<rceil> - 1"] bitlen_nonneg[of "\<lceil>1 / q\<rceil> - 1"] by linarith
  then show ?thesis using False by (simp add: ilog2_def)
qed

lemma fl_sandwich:
  assumes q: "0 < q" "q < 2 ^ k" and g: "g = of_int m * 2 powi (int k - 53)"
  shows "(q \<le> g \<longrightarrow> fl q \<le> g) \<and> (g \<le> q \<longrightarrow> g \<le> fl q)"
proof -
  define e where "e = ilog2 q"
  define u :: rat where "u = 2 powi (e - 52)"
  have e: "e < int k" unfolding e_def using q by (rule ilog2_less)
  have upos: "0 < u" by (simp add: u_def)
  define m' where "m' = m * 2 ^ nat (int k - 1 - e)"
  have "(2::rat) powi (int k - 53) = 2 powi (int k - 1 - e) * 2 powi (e - 52)"
    by (simp flip: power_int_add)
  also have "(2::rat) powi (int k - 1 - e) = 2 ^ nat (int k - 1 - e)"
    using e by (simp add: power_int_def)
  finally have gm: "g = of_int m' * u" by (simp add: g m'_def u_def)
  have flq: "fl q = of_int (round_half_even (q / u)) * u"
    using q(1) by (simp add: fl_def e_def u_def Let_def)
  show ?thesis
  proof (intro conjI impI)
    assume "q \<le> g"
    then have "q / u \<le> of_int m'" using upos by (simp add: gm pos_divide_le_eq)
    then have "round_half_even (q / u) \<le> m'" by (rule rhe_le)
    then have "(of_int (round_half_even (q / u)) :: rat) \<le> of_int m'" by simp
    then show "fl q \<le> g" using upos by (simp add: flq gm)
  next
    assume "g \<le> q"
    then have "of_int m' \<le> q / u" using upos by (simp add: gm pos_le_divide_eq)
    then have "m' \<le> round_half_even (q / u)" by (rule rhe_ge)
    then have "(of_int m' :: rat) \<le> of_int (round_half_even (q / u))" by simp
    then show "g \<le> fl q" using upos by (simp add: flq gm)
  qed
qed


lemma fl_nonneg: "0 \<le> q \<Longrightarrow> 0 \<le> fl q"
proof (cases "q = 0")
  case True then show ?thesis by (simp add: fl_def)
next
  case False
  assume "0 \<le> q"
  define u :: rat where "u = 2 powi (ilog2 \<bar>q\<bar> - 52)"
  have upos: "0 < u" by (simp add: u_def)
  with \<open>0 \<le> q\<close> have "of_int 0 \<le> q / u" by simp
  then have "0 \<le> round_half_even (q / u)" by (rule rhe_ge)
  then show ?thesis using upos False by (simp add: fl_def u_def Let_def)
qed

lemma powi_below: "k \<le> 53 \<Longrightarrow> (2::rat) powi (int k - 53) = inverse (2 ^ (53 - k))"
  by (simp add: power_int_def nat_diff_distrib' power_one_over inverse_eq_divide)

lemma dyadic_int: "k \<le> 53 \<Longrightarrow> (of_int n :: rat) = of_int (n * 2 ^ (53 - k)) * 2 powi (int k - 53)"
proof -
  assume "k \<le> 53"
  then have "(2::rat) powi (int k - 53) = inverse (2 ^ (53 - k))" by (rule powi_below)
  then show ?thesis by simp
qed

lemma dyadic_frac:
  assumes "k + j \<le> 53"
  shows "(of_int n + 1 - 1 / 2 ^ j :: rat) =
         of_int ((n + 1) * 2 ^ (53 - k) - 2 ^ (53 - k - j)) * 2 powi (int k - 53)"
proof -
  from assms have k: "k \<le> 53" by simp
  then have p: "(2::rat) powi (int k - 53) = inverse (2 ^ (53 - k))" by (rule powi_below)
  have "(2::rat) ^ (53 - k) = 2 ^ (53 - k - j) * 2 ^ j"
    using assms by (simp flip: power_add)
  then have "(2::rat) ^ (53 - k - j) / 2 ^ (53 - k) = 1 / 2 ^ j" by simp
  then show ?thesis by (simp add: p field_simps)
qed

text \<open>Rounding does not cross an integer that the exact value keeps clear of.\<close>

lemma floor_fl:
  assumes "0 \<le> q" "q < 2 ^ k" "k + j \<le> 53" "q \<le> of_int \<lfloor>q\<rfloor> + 1 - 1 / 2 ^ j"
  shows "\<lfloor>fl q\<rfloor> = \<lfloor>q\<rfloor>"
proof (cases "q = 0")
  case True then show ?thesis by (simp add: fl_def)
next
  case False
  with assms(1) have pos: "0 < q" by simp
  from assms(3) have k: "k \<le> 53" by simp
  have lo: "of_int \<lfloor>q\<rfloor> \<le> fl q"
    using fl_sandwich[OF pos assms(2) dyadic_int[OF k, of "\<lfloor>q\<rfloor>"]] by simp
  have hi: "fl q \<le> of_int \<lfloor>q\<rfloor> + 1 - 1 / 2 ^ j"
    using fl_sandwich[OF pos assms(2) dyadic_frac[OF assms(3), of "\<lfloor>q\<rfloor>"]] assms(4) by simp
  have "(0::rat) < 1 / 2 ^ j" by simp
  with hi have "fl q < of_int \<lfloor>q\<rfloor> + 1" by linarith
  with lo show ?thesis by (simp add: floor_eq_iff)
qed

lemma py_int_fl:
  assumes "0 \<le> q" "q < 2 ^ k" "k + j \<le> 53" "q \<le> of_int \<lfloor>q\<rfloor> + 1 - 1 / 2 ^ j"
  shows "py_int (fl q) = \<lfloor>q\<rfloor>"
  using floor_fl[OF assms] fl_nonneg[OF assms(1)] by (simp add: py_int_def)

lemma fl_exact:
  assumes "0 \<le> q" "q < 2 ^ k" "q = of_int m * 2 powi (int k - 53)"
  shows "fl q = q"
proof (cases "q = 0")
  case True then show ?thesis by (simp add: fl_def)
next
  case False
  with assms(1) have pos: "0 < q" by simp
  from fl_sandwich[OF pos assms(2) assms(3)] show ?thesis by simp
qed

lemma fl_int: "0 \<le> n \<Longrightarrow> n < 2 ^ 53 \<Longrightarrow> fl (of_int n) = of_int n"
proof -
  assume a: "0 \<le> n" "n < 2 ^ 53"
  have b: "(of_int n :: rat) < 2 ^ 53" using a(2) by (metis of_int_less_iff of_int_numeral of_int_power)
  show ?thesis
    by (rule fl_exact[where k = 53 and m = n]) (use a b in simp_all)
qed

lemma fl_half_int: "0 \<le> n \<Longrightarrow> n < 2 ^ 52 \<Longrightarrow> fl (of_int n / 2) = of_int n / 2"
proof -
  assume a: "0 \<le> n" "n < 2 ^ 52"
  have "(of_int n :: rat) < 2 ^ 52" using a(2) by (metis of_int_less_iff of_int_numeral of_int_power)
  then have b: "(of_int n / 2 :: rat) < 2 ^ 52" using a(1) by simp
  show ?thesis
    by (rule fl_exact[where k = 52 and m = n]) (use a b in \<open>simp_all add: power_int_def\<close>)
qed

text \<open>The quotient of two ints, rounded and truncated, is the integer quotient.\<close>

lemma py_int_fl_div:
  assumes "0 \<le> a" "0 < d" "d \<le> 2 ^ j" "(of_int a / of_int d :: rat) < 2 ^ k" "k + j \<le> 53"
  shows "py_int (fl (of_int a / of_int d)) = a div d"
proof -
  let ?q = "of_int a / of_int d :: rat"
  have fq: "\<lfloor>?q\<rfloor> = a div d" by (simp add: floor_divide_of_int_eq)
  have q0: "0 \<le> ?q" using assms(1,2) by simp
  have dpos: "(0::rat) < of_int d" using assms(2) by simp
  have "a = d * (a div d) + a mod d" by simp
  moreover have "a mod d \<le> d - 1" using assms(2) by (simp add: zle_diff1_eq)
  ultimately have "a \<le> d * (a div d) + d - 1" by linarith
  then have "(of_int a :: rat) \<le> of_int (d * (a div d) + d - 1)" by (simp only: of_int_le_iff)
  then have "?q \<le> of_int (d * (a div d) + d - 1) / of_int d"
    using dpos by (simp add: divide_right_mono)
  also have "\<dots> = of_int (a div d) + 1 - 1 / of_int d" using dpos by (simp add: field_simps)
  also have "\<dots> \<le> of_int (a div d) + 1 - 1 / 2 ^ j"
  proof -
    have "(of_int d :: rat) \<le> 2 ^ j" using assms(3) by (metis of_int_le_iff of_int_numeral of_int_power)
    then have "1 / (2::rat) ^ j \<le> 1 / of_int d" using dpos by (simp add: frac_le)
    then show ?thesis by simp
  qed
  finally have "?q \<le> of_int \<lfloor>?q\<rfloor> + 1 - 1 / 2 ^ j" by (simp only: fq)
  from py_int_fl[OF q0 assms(4) assms(5) this] fq show ?thesis by simp
qed

lemma dyadic: "j + k \<le> 53 \<Longrightarrow>
  (of_int m / 2 ^ j :: rat) = of_int (m * 2 ^ (53 - k - j)) * 2 powi (int k - 53)"
proof -
  assume a: "j + k \<le> 53"
  then have k: "k \<le> 53" by simp
  have "(2::rat) ^ (53 - k) = 2 ^ (53 - k - j) * 2 ^ j"
    using a by (simp flip: power_add)
  then show ?thesis by (simp add: powi_below[OF k] field_simps)
qed

lemma fl_le:
  assumes "0 < q" "q < 2 ^ k" "j + k \<le> 53" "q \<le> of_int m / 2 ^ j"
  shows "fl q \<le> of_int m / 2 ^ j"
  using fl_sandwich[OF assms(1,2) dyadic[OF assms(3), of m]] assms(4) by simp

lemma fl_ge:
  assumes "0 < q" "q < 2 ^ k" "j + k \<le> 53" "of_int m / 2 ^ j \<le> q"
  shows "of_int m / 2 ^ j \<le> fl q"
  using fl_sandwich[OF assms(1,2) dyadic[OF assms(3), of m]] assms(4) by simp

lemma fl_nonpos: "q \<le> 0 \<Longrightarrow> fl q \<le> 0"
proof (cases "q = 0")
  case True then show ?thesis by (simp add: fl_def)
next
  case False
  assume "q \<le> 0"
  define u :: rat where "u = 2 powi (ilog2 \<bar>q\<bar> - 52)"
  have upos: "0 < u" by (simp add: u_def)
  with \<open>q \<le> 0\<close> have "q / u \<le> of_int 0" by (simp add: divide_le_0_iff)
  then have "round_half_even (q / u) \<le> 0" by (rule rhe_le)
  then have "(of_int (round_half_even (q / u)) :: rat) \<le> 0" by simp
  then show ?thesis using upos False by (simp add: fl_def u_def Let_def mult_le_0_iff)
qed

lemma py_int_mono: "a \<le> b \<Longrightarrow> py_int a \<le> py_int b"
proof -
  assume ab: "a \<le> b"
  consider "0 \<le> a" | "a < 0" "b < 0" | "a < 0" "0 \<le> b" by linarith
  then show ?thesis
  proof cases
    case 1
    with ab show ?thesis by (simp add: py_int_def floor_mono)
  next
    case 2
    with ab show ?thesis by (simp add: py_int_def ceiling_mono)
  next
    case 3
    then have "\<lceil>a\<rceil> \<le> 0" "0 \<le> \<lfloor>b\<rfloor>" by (simp_all add: ceiling_le_zero)
    then have "\<lceil>a\<rceil> \<le> \<lfloor>b\<rfloor>" by linarith
    with 3 show ?thesis by (simp add: py_int_def)
  qed
qed

lemma py_int_of_int: "py_int (of_int n) = n"
  by (simp add: py_int_def)


lemma lit_0_5_val: "lit_0_5 = 1 / 2"
  by code_simp

lemma lit_0_35_val: "lit_0_35 = 3152519739159347 / 2 ^ 53"
  by code_simp

lemma lit_0_05_val: "lit_0_05 = 3602879701896397 / 2 ^ 56"
  by code_simp

lemma rat_less_pow: "n < 2 ^ k \<Longrightarrow> (of_int n :: rat) < 2 ^ k"
  by (metis of_int_less_iff of_int_numeral of_int_power)

lemma float_of_int_exact: "0 \<le> n \<Longrightarrow> n < 2 ^ 53 \<Longrightarrow> float_of_int n = of_int n"
  by (simp add: float_of_int_def fl_int)

lemma font_size_div:
  assumes "0 \<le> W" "W < 2 ^ 31" "0 < d" "d \<le> 32"
  shows "py_int (fdiv (of_int W) (of_int d)) = W div d"
proof -
  have "(of_int W :: rat) < 2 ^ 31" using assms(2) by (rule rat_less_pow)
  moreover have "(of_int W / of_int d :: rat) \<le> of_int W"
    using assms(1,3) by (simp add: divide_le_eq mult_le_cancel_left1)
  ultimately have lt: "(of_int W / of_int d :: rat) < 2 ^ 31" by linarith
  have d: "d \<le> 2 ^ 5" using assms(4) by simp
  show ?thesis unfolding fdiv_def
    by (rule py_int_fl_div[OF assms(1) assms(3) d lt]) simp
qed

lemma quote_font_size_div: "0 \<le> W \<Longrightarrow> W < 2 ^ 31 \<Longrightarrow> quote_font_size W = W div 15"
  using font_size_div[of W 15] by (simp add: quote_font_size_def)

lemma pov_font_size_div: "0 \<le> W \<Longrightarrow> W < 2 ^ 31 \<Longrightarrow> pov_font_size W = W div 12"
  using font_size_div[of W 12] by (simp add: pov_font_size_def)

lemma pov_quote_font_size_div: "0 \<le> W \<Longrightarrow> W < 2 ^ 31 \<Longrightarrow> pov_quote_font_size W = W div 18"
  using font_size_div[of W 18] by (simp add: pov_quote_font_size_def)

lemma caption_gap:
  assumes "0 \<le> H" "H < 2 ^ 31"
  shows "py_int (fmul (float_of_int H) lit_0_05) = H div 20"
proof -
  define n where "n = H div 20"
  define r where "r = H mod 20"
  define q :: rat where "q = of_int H * (3602879701896397 / 2 ^ 56)"
  have e: "fmul (float_of_int H) lit_0_05 = fl q"
    using assms by (simp add: fmul_def float_of_int_exact lit_0_05_val q_def)
  have H: "H = 20 * n + r" and r: "0 \<le> r" "r \<le> 19" by (simp_all add: n_def r_def)
  have Hr: "(of_int H :: rat) = 20 * of_int n + of_int r" using H by (metis of_int_add of_int_mult of_int_numeral)
  have rr: "(0::rat) \<le> of_int r" "(of_int r :: rat) \<le> 19" using r by simp_all
  have Hlt: "(of_int H :: rat) < 2 ^ 31" using assms(2) by (rule rat_less_pow)
  have H0: "(0::rat) \<le> of_int H" using assms(1) by simp
  have lo: "of_int n \<le> q" using Hr rr H0 by (simp add: q_def)
  have hi: "q \<le> of_int n + 1 - 1 / 2 ^ 5" using Hr rr Hlt by (simp add: q_def)
  have "q < of_int n + 1" using hi by simp
  with lo have fq: "\<lfloor>q\<rfloor> = n" by (intro floor_unique)
  have q0: "0 \<le> q" using H0 by (simp add: q_def)
  have qlt: "q < 2 ^ 31" using Hlt H0 by (simp add: q_def)
  have hi': "q \<le> of_int \<lfloor>q\<rfloor> + 1 - 1 / 2 ^ 5" using hi by (simp only: fq)
  have "py_int (fl q) = \<lfloor>q\<rfloor>"
    by (rule py_int_fl[OF q0 qlt _ hi']) simp
  then show ?thesis by (simp only: e fq n_def)
qed

lemma label_y_bounds:
  assumes "0 \<le> H" "H < 2 ^ 31"
  shows "7 * H div 20 - 1 \<le> py_int (fmul (float_of_int H) lit_0_35) \<and>
         py_int (fmul (float_of_int H) lit_0_35) \<le> 7 * H div 20"
proof (cases "H = 0")
  case True
  then show ?thesis by (simp add: fmul_def float_of_int_def fl_def py_int_def)
next
  case False
  with assms(1) have Hpos: "0 < H" by simp
  define n where "n = 7 * H div 20"
  define r where "r = 7 * H mod 20"
  define q :: rat where "q = of_int H * (3152519739159347 / 2 ^ 53)"
  have e: "fmul (float_of_int H) lit_0_35 = fl q"
    using assms by (simp add: fmul_def float_of_int_exact lit_0_35_val q_def)
  have H: "7 * H = 20 * n + r" and r: "0 \<le> r" "r \<le> 19" by (simp_all add: n_def r_def)
  have Hr: "7 * (of_int H :: rat) = 20 * of_int n + of_int r"
    using H by (metis of_int_add of_int_mult of_int_numeral)
  have rr: "(0::rat) \<le> of_int r" "(of_int r :: rat) \<le> 19" using r by simp_all
  have Hlt: "(of_int H :: rat) < 2 ^ 31" using assms(2) by (rule rat_less_pow)
  have H0: "(0::rat) < of_int H" using Hpos by simp
  have q0: "0 < q" using H0 by (simp add: q_def)
  have qlt: "q < 2 ^ 31" using Hlt H0 by (simp add: q_def)
  have up: "q \<le> of_int (32 * n + 31) / 2 ^ 5" using Hr rr H0 by (simp add: q_def)
  have low: "of_int (32 * n - 1) / 2 ^ 5 \<le> q" using Hr rr Hlt by (simp add: q_def)
  have flup: "fl q \<le> of_int (32 * n + 31) / 2 ^ 5"
    by (rule fl_le[OF q0 qlt _ up]) simp
  have fllow: "of_int (32 * n - 1) / 2 ^ 5 \<le> fl q"
    by (rule fl_ge[OF q0 qlt _ low]) simp
  have nn: "0 \<le> fl q" using q0 by (intro fl_nonneg) simp
  have "fl q < of_int (n + 1)" using flup by simp
  then have a: "\<lfloor>fl q\<rfloor> \<le> n" by (simp only: floor_less_iff[symmetric])
  have "of_int (n - 1) \<le> fl q" using fllow by simp
  then have b: "n - 1 \<le> \<lfloor>fl q\<rfloor>" by (simp only: le_floor_iff)
  have "py_int (fl q) = \<lfloor>fl q\<rfloor>" using nn by (simp add: py_int_def)
  with a b show ?thesis by (simp only: e n_def)
qed

lemma char_budget_floor:
  assumes "0 \<le> mw" "mw < 2 ^ 31" "0 < S" "S \<le> 2 ^ 20"
  shows "char_budget S mw = (2 * mw) div S"
proof -
  have S53: "S < 2 ^ 53" "S < 2 ^ 52" using assms(4) by simp_all
  have m53: "mw < 2 ^ 53" using assms(2) by simp
  have half: "fl (of_int S / 2) = of_int S / 2"
    using assms(3) S53 by (intro fl_half_int) simp_all
  have Spos: "(0::rat) < of_int S" using assms(3) by simp
  define q :: rat where "q = of_int (2 * mw) / of_int S"
  have "(of_int (2 * mw) :: rat) < 2 ^ 32" using assms(2) by (intro rat_less_pow) simp
  moreover have "q \<le> of_int (2 * mw)"
    using assms(1,3) by (simp add: q_def divide_le_eq mult_le_cancel_left1)
  ultimately have lt: "q < 2 ^ 32" by linarith
  have p: "py_int (fl q) = (2 * mw) div S"
    unfolding q_def
    by (rule py_int_fl_div[OF _ assms(3) assms(4) lt[unfolded q_def]]) (use assms(1) in simp_all)
  have "(of_int mw / (of_int S / 2) :: rat) = q" by (simp add: q_def)
  then have "char_budget S mw = py_int (fl q)"
    using assms S53 m53
    by (simp add: char_budget_def fdiv_def fmul_def float_of_int_exact lit_0_5_val half)
  with p show ?thesis by simp
qed

lemma char_budget_neg: "char_budget 4 (- 1) = 0"
  by code_simp

section \<open>Layout of the single block\<close>

lemma centered_div2: "2 * ((W - w) div 2) + w \<in> {W - 1, W}" for W w :: int
proof -
  have "(W - w) mod 2 = 0 \<or> (W - w) mod 2 = 1" by auto
  moreover have "2 * ((W - w) div 2) = (W - w) - (W - w) mod 2"
    by (simp add: minus_mod_eq_mult_div)
  ultimately show ?thesis by auto
qed

lemma centered_offset: "(((W - (r - l)) div 2 + l) + ((W - (r - l)) div 2 + r)) \<in> {W - 1 + 2 * l, W + 2 * l}"
  for W l r :: int
  using centered_div2[of W "r - l"] by auto

text \<open>
  C6. In \<open>add_text_to_image\<close>, for an image of width \<open>W\<close> (below \<open>2\<^sup>3\<^sup>1\<close>) and height
  \<open>H\<close>: the font is loaded at the pixel size \<open>W div 15\<close>, the floor of \<open>W / 15\<close>, and the
  wrapped caption is drawn, outlined, at the position \<open>(x, y)\<close> with
  \<open>x = (W - text_width) div 2\<close> and \<open>y = (H - text_height) div 2\<close>, the width and the height
  being those of the box \<open>(l, t, r, b)\<close> measured at the origin. The box of the drawn block
  is \<open>(x + l, y + t, x + r, y + b)\<close>: the position is not corrected by \<open>l\<close> and \<open>t\<close>. The sum
  of its left and right edges is \<open>W + 2l\<close> or one less, the sum of its top and bottom
  edges \<open>H + 2t\<close> or one less: the midpoint of the block is \<open>l\<close> pixels right of and \<open>t\<close>
  pixels below the centre of the image, to half a pixel. (The outline passes extend the
  box by the outline width on every side and leave the midpoint where it is.) The block
  is centred only when \<open>l\<close> and \<open>t\<close> are zero; at the size 72 of a 1080
  pixels wide image, with a top of 12, it is drawn 12 pixels below the centre.
\<close>

theorem single_block_layout:
  assumes "Image_open B image_path = Inr img"
    and "0 \<le> img_width img" and "img_width img < 2 ^ 31"
    and "truetype_error B (font_path self) (img_width img div 15) = None"
    and "f = \<lparr>font_file = font_path self, font_size = img_width img div 15\<rparr>"
    and "wrapped = wrap_text B caption f (img_width img - 2 * 20)"
    and "textbbox B f wrapped AlignLeft = (l, t, r, b)"
    and "x = (img_width img - (r - l)) div 2" and "y = (img_height img - (b - t)) div 2"
  shows "quote_font_size (img_width img) = img_width img div 15 \<and>
         try_add_text B self image_path caption output_filename =
           (case draw_text_with_outline B (vignette img) (x, y) wrapped f
                   (255, 255, 255, 255) (0, 0, 0, 255) 2 of
              Inl e \<Rightarrow> (Inl e, [])
            | Inr drawn \<Rightarrow> finish_render B self image_path output_filename ''_quote.jpg'' drawn) \<and>
         textbbox_at B (x, y) f wrapped AlignLeft = (x + l, y + t, x + r, y + b) \<and>
         (x + l) + (x + r) \<in> {img_width img - 1 + 2 * l, img_width img + 2 * l} \<and>
         (y + t) + (y + b) \<in> {img_height img - 1 + 2 * t, img_height img + 2 * t}"
proof (intro conjI)
  show fs: "quote_font_size (img_width img) = img_width img div 15"
    using assms(2,3) by (rule quote_font_size_div)
  have tt: "ImageFont_truetype B (font_path self) (img_width img div 15) = Inr f"
    using assms(4,5) by (simp add: ImageFont_truetype_def)
  show "try_add_text B self image_path caption output_filename =
           (case draw_text_with_outline B (vignette img) (x, y) wrapped f
                   (255, 255, 255, 255) (0, 0, 0, 255) 2 of
              Inl e \<Rightarrow> (Inl e, [])
            | Inr drawn \<Rightarrow> finish_render B self image_path output_filename ''_quote.jpg'' drawn)"
  proof -
    have w: "wrap_text B caption f (img_width img - 40) = wrapped" using assms(6) by simp
    show ?thesis
      by (simp add: try_add_text_def assms(1) Let_def fs tt w assms(7) centered_position_def
            assms(8,9))
  qed
  show "textbbox_at B (x, y) f wrapped AlignLeft = (x + l, y + t, x + r, y + b)"
    by (simp add: textbbox_at_def assms(7))
  show "(x + l) + (x + r) \<in> {img_width img - 1 + 2 * l, img_width img + 2 * l}"
    unfolding assms(8) by (rule centered_offset)
  show "(y + t) + (y + b) \<in> {img_height img - 1 + 2 * t, img_height img + 2 * t}"
    unfolding assms(9) by (rule centered_offset)
qed

theorem single_block_layout_witness:
  "quote_font_size 1080 = 72 \<and>
   try_add_text metric_backend \<lparr>font_path = ''DejaVuSans-Bold.ttf'', output_dir = ''output''\<rparr>
       ''bg.jpg'' ''Discipline beats motivation.'' None =
     (case draw_text_with_outline metric_backend (vignette (Image_new (1080, 1920) (20, 20, 30, 255)))
             (36, 924) ''Discipline beats motivation.''
             \<lparr>font_file = ''DejaVuSans-Bold.ttf'', font_size = 72\<rparr>
             (255, 255, 255, 255) (0, 0, 0, 255) 2 of
        Inl e \<Rightarrow> (Inl e, [])
      | Inr drawn \<Rightarrow>
          finish_render metric_backend \<lparr>font_path = ''DejaVuSans-Bold.ttf'', output_dir = ''output''\<rparr>
            ''bg.jpg'' None ''_quote.jpg'' drawn) \<and>
   textbbox_at metric_backend (36, 924) \<lparr>font_file = ''DejaVuSans-Bold.ttf'', font_size = 72\<rparr>
       ''Discipline beats motivation.'' AlignLeft = (36, 936, 1044, 1008) \<and>
   (36 + 1044 :: int) = 1080 \<and> (936 + 1008 :: int) = 1920 + 2 * 12"
proof -
  let ?self = "\<lparr>font_path = ''DejaVuSans-Bold.ttf'', output_dir = ''output''\<rparr>"
  let ?img = "Image_new (1080, 1920) (20, 20, 30, 255)"
  let ?f = "\<lparr>font_file = ''DejaVuSans-Bold.ttf'', font_size = 72\<rparr>"
  have 1: "Image_open metric_backend ''bg.jpg'' = Inr ?img"
    by (simp add: metric_backend_def demo_backend_def)
  have 2: "0 \<le> img_width ?img" "img_width ?img < 2 ^ 31" by (simp_all add: Image_new_def)
  have 4: "truetype_error metric_backend (font_path ?self) (img_width ?img div 15) = None"
    by (simp add: metric_backend_def demo_backend_def Image_new_def)
  have 5: "?f = \<lparr>font_file = font_path ?self, font_size = img_width ?img div 15\<rparr>"
    by (simp add: Image_new_def)
  have w: "wrap_text metric_backend ''Discipline beats motivation.'' ?f 1040 =
      ''Discipline beats motivation.''"
    by code_simp
  have 6: "''Discipline beats motivation.'' =
      wrap_text metric_backend ''Discipline beats motivation.'' ?f (img_width ?img - 2 * 20)"
    by (simp add: Image_new_def w)
  have 7: "textbbox metric_backend ?f ''Discipline beats motivation.'' AlignLeft = (0, 12, 1008, 84)"
    by (simp add: metric_backend_def)
  have 8: "(36::int) = (img_width ?img - (1008 - 0)) div 2" by (simp add: Image_new_def)
  have 9: "(924::int) = (img_height ?img - (84 - 12)) div 2" by (simp add: Image_new_def)
  from single_block_layout[OF 1 2 4 5 6 7 8 9, of None]
  show ?thesis by (simp add: Image_new_def)
qed

section \<open>The character budget of the approximate wrap\<close>

lemma half_font_size:
  assumes "0 < S" "S \<le> 2 ^ 20"
  shows "fmul (float_of_int S) lit_0_5 = of_int S / 2"
proof -
  have S53: "S < 2 ^ 53" "S < 2 ^ 52" using assms(2) by simp_all
  have "fl (of_int S / 2) = of_int S / 2"
    using assms(1) S53 by (intro fl_half_int) simp_all
  then show ?thesis using assms S53 by (simp add: fmul_def float_of_int_exact lit_0_5_val)
qed

text \<open>
  C8, as amended. For a font of pixel size \<open>S\<close> with \<open>1 \<le> S \<le> 2\<^sup>2\<^sup>0\<close> and
  \<open>0 \<le> max_width < 2\<^sup>3\<^sup>1\<close>, the width passed to \<open>textwrap.wrap\<close> is the floor of
  \<open>max_width / (S * 0.5)\<close>, and \<open>POVTextOverlay.wrap_text\<close> returns the lines of
  \<open>textwrap.wrap\<close> for that width joined by newlines, or the exception of
  \<open>textwrap.wrap\<close>; being a function of its inputs, it gives the same lines for the same
  inputs.
\<close>

theorem char_count_wrap:
  assumes "0 \<le> max_width" "max_width < 2 ^ 31" "0 < font_size f" "font_size f \<le> 2 ^ 20"
  shows "char_budget (font_size f) max_width =
           \<lfloor>of_int max_width / (of_int (font_size f) * (1 / 2)) :: rat\<rfloor> \<and>
         pov_wrap_text B txt f max_width =
           (case textwrap_wrap B txt \<lfloor>of_int max_width / (of_int (font_size f) * (1 / 2)) :: rat\<rfloor> of
              Inl e \<Rightarrow> Inl e
            | Inr lines \<Rightarrow> Inr (py_join [CHR 0x0A] lines))"
proof -
  have "(of_int max_width / (of_int (font_size f) * (1 / 2)) :: rat) =
        of_int (2 * max_width) / of_int (font_size f)" by simp
  then have "\<lfloor>of_int max_width / (of_int (font_size f) * (1 / 2)) :: rat\<rfloor> =
        (2 * max_width) div font_size f"
    by (simp only: floor_divide_of_int_eq)
  with char_budget_floor[OF assms] 
  have b: "char_budget (font_size f) max_width =
           \<lfloor>of_int max_width / (of_int (font_size f) * (1 / 2)) :: rat\<rfloor>" by simp
  have nz: "fmul (float_of_int (font_size f)) lit_0_5 \<noteq> 0"
    using half_font_size[OF assms(3,4)] assms(3) by simp
  show ?thesis unfolding pov_wrap_text_def using b nz by simp
qed

theorem char_count_wrap_witness:
  "char_budget 60 1000 = 33 \<and>
   pov_wrap_text demo_backend ''Discipline beats motivation.''
       \<lparr>font_file = ''DejaVuSans-Bold.ttf'', font_size = 60\<rparr> 1000 =
     Inr (''Discipline'' @ [CHR 0x0A] @ ''beats'' @ [CHR 0x0A] @ ''motivation.'')"
proof -
  let ?f = "\<lparr>font_file = ''DejaVuSans-Bold.ttf'', font_size = 60\<rparr>"
  have h: "(0::int) \<le> 1000" "(1000::int) < 2 ^ 31" "0 < font_size ?f" "font_size ?f \<le> 2 ^ 20"
    by simp_all
  have s: "py_split ''Discipline beats motivation.'' = [''Discipline'', ''beats'', ''motivation.'']"
    by code_simp
  have fl: "\<lfloor>of_int 1000 / (of_int (font_size ?f) * (1 / 2)) :: rat\<rfloor> = 33"
    by (rule floor_unique) simp_all
  have t: "textwrap_wrap demo_backend ''Discipline beats motivation.'' 33 =
      Inr [''Discipline'', ''beats'', ''motivation.'']"
    by (simp add: demo_backend_def s)
  from char_count_wrap[OF h, of demo_backend "''Discipline beats motivation.''"]
  show ?thesis unfolding fl t by simp
qed

text \<open>
  C8 as stated fails for a negative \<open>max_width\<close> (an image narrower than 80 pixels):
  \<open>int()\<close> truncates toward zero, so \<open>max_width = -1\<close> at size 4 gives the budget 0, and the
  floor of \<open>-1 / (4 * 0.5)\<close> is \<open>-1\<close>.
\<close>

theorem char_budget_not_floor:
  "char_budget 4 (- 1) = 0 \<and> \<lfloor>of_int (- 1) / (of_int 4 * (1 / 2)) :: rat\<rfloor> = - 1"
proof -
  have "\<lfloor>of_int (- 1) / (of_int 4 * (1 / 2)) :: rat\<rfloor> = - 1"
    by (rule floor_unique) simp_all
  with char_budget_neg show ?thesis by simp
qed

section \<open>Layout of the two blocks\<close>

text \<open>
  C7, as amended. In \<open>add_pov_text_to_image\<close>, for an image of width \<open>W\<close> and height \<open>H\<close>
  (both below \<open>2\<^sup>3\<^sup>1\<close>): the label \<open>POV\<close> is drawn with the font of size \<open>W div 12\<close> at
  \<open>x = (W - label_width) div 2\<close> and \<open>y = int(H * 0.35)\<close>, the product taken in double
  precision, which is the floor of \<open>0.35 H\<close> or one less; the wrapped caption is drawn
  with the font of size \<open>W div 18\<close> at \<open>x = (W - caption_width) div 2\<close>, from its own
  bounding box, and \<open>y = label_y + label_height + H div 20\<close>, where \<open>H div 20\<close> is
  \<open>int(H * 0.05)\<close>. The box of each drawn block is the box measured at the origin moved to
  the position of the block; the sum of its left and right edges is \<open>W + 2l\<close> or one less,
  \<open>l\<close> being the left edge of the measured box: the block is horizontally centred, to half
  a pixel, when its measured box starts at 0. (The label is measured with the default
  alignment and drawn with \<open>align="center"\<close>; on its single line the alignment changes
  nothing, which is the hypothesis on the two boxes of the label.)
\<close>

theorem two_block_layout:
  assumes "Image_open B image_path = Inr img"
    and "0 \<le> img_width img" and "img_width img < 2 ^ 31"
    and "0 \<le> img_height img" and "img_height img < 2 ^ 31"
    and "truetype_error B (font_path self) (img_width img div 12) = None"
    and "truetype_error B (font_path self) (img_width img div 18) = None"
    and "pov_font = \<lparr>font_file = font_path self, font_size = img_width img div 12\<rparr>"
    and "quote_font = \<lparr>font_file = font_path self, font_size = img_width img div 18\<rparr>"
    and "textbbox B pov_font ''POV'' AlignLeft = (pl, pt, pr, pb)"
    and "textbbox B pov_font ''POV'' AlignCenter = (pl, pt, pr, pb)"
    and "pov_wrap_text B quote quote_font (img_width img - 2 * 40) = Inr wrapped"
    and "textbbox B quote_font wrapped AlignCenter = (l, t, r, b)"
    and "pov_x = (img_width img - (pr - pl)) div 2"
    and "pov_y = py_int (fmul (float_of_int (img_height img)) lit_0_35)"
    and "quote_x = (img_width img - (r - l)) div 2"
    and "quote_y = pov_y + (pb - pt) + img_height img div 20"
  shows "pov_font_size (img_width img) = img_width img div 12 \<and>
         pov_quote_font_size (img_width img) = img_width img div 18 \<and>
         7 * img_height img div 20 - 1 \<le> pov_y \<and> pov_y \<le> 7 * img_height img div 20 \<and>
         py_int (fmul (float_of_int (img_height img)) lit_0_05) = img_height img div 20 \<and>
         try_add_pov_text B self image_path quote output_filename =
           (case pov_draw_text_with_outline B (vignette img) (pov_x, pov_y) ''POV'' pov_font
                   (255, 255, 255, 255) (0, 0, 0, 255) 2 AlignCenter of
              Inl e \<Rightarrow> (Inl e, [])
            | Inr drawn1 \<Rightarrow>
                (case pov_draw_text_with_outline B drawn1 (quote_x, quote_y) wrapped quote_font
                        (255, 255, 255, 255) (0, 0, 0, 255) 2 AlignCenter of
                   Inl e \<Rightarrow> (Inl e, [])
                 | Inr drawn2 \<Rightarrow>
                     finish_render B self image_path output_filename
                       ''_pov_quote_centered.jpg'' drawn2)) \<and>
         textbbox_at B (pov_x, pov_y) pov_font ''POV'' AlignCenter =
           (pov_x + pl, pov_y + pt, pov_x + pr, pov_y + pb) \<and>
         (pov_x + pl) + (pov_x + pr) \<in> {img_width img - 1 + 2 * pl, img_width img + 2 * pl} \<and>
         textbbox_at B (quote_x, quote_y) quote_font wrapped AlignCenter =
           (quote_x + l, quote_y + t, quote_x + r, quote_y + b) \<and>
         (quote_x + l) + (quote_x + r) \<in> {img_width img - 1 + 2 * l, img_width img + 2 * l}"
proof (intro conjI)
  show f12: "pov_font_size (img_width img) = img_width img div 12"
    using assms(2,3) by (rule pov_font_size_div)
  show f18: "pov_quote_font_size (img_width img) = img_width img div 18"
    using assms(2,3) by (rule pov_quote_font_size_div)
  show "7 * img_height img div 20 - 1 \<le> pov_y" "pov_y \<le> 7 * img_height img div 20"
    using label_y_bounds[OF assms(4,5)] unfolding assms(15) by simp_all
  show gap: "py_int (fmul (float_of_int (img_height img)) lit_0_05) = img_height img div 20"
    using assms(4,5) by (rule caption_gap)
  have t12: "ImageFont_truetype B (font_path self) (img_width img div 12) = Inr pov_font"
    using assms(6,8) by (simp add: ImageFont_truetype_def)
  have t18: "ImageFont_truetype B (font_path self) (img_width img div 18) = Inr quote_font"
    using assms(7,9) by (simp add: ImageFont_truetype_def)
  have w: "pov_wrap_text B quote quote_font (img_width img - 80) = Inr wrapped"
    using assms(12) by simp
  show "try_add_pov_text B self image_path quote output_filename =
           (case pov_draw_text_with_outline B (vignette img) (pov_x, pov_y) ''POV'' pov_font
                   (255, 255, 255, 255) (0, 0, 0, 255) 2 AlignCenter of
              Inl e \<Rightarrow> (Inl e, [])
            | Inr drawn1 \<Rightarrow>
                (case pov_draw_text_with_outline B drawn1 (quote_x, quote_y) wrapped quote_font
                        (255, 255, 255, 255) (0, 0, 0, 255) 2 AlignCenter of
                   Inl e \<Rightarrow> (Inl e, [])
                 | Inr drawn2 \<Rightarrow>
                     finish_render B self image_path output_filename
                       ''_pov_quote_centered.jpg'' drawn2))"
    by (simp add: try_add_pov_text_def assms(1) Let_def f12 f18 t12 t18 w assms(10) assms(13)
          pov_position_def quote_position_def gap assms(14,15,16,17) cong: sum.case_cong)
  show "textbbox_at B (pov_x, pov_y) pov_font ''POV'' AlignCenter =
           (pov_x + pl, pov_y + pt, pov_x + pr, pov_y + pb)"
    by (simp add: textbbox_at_def assms(11))
  show "(pov_x + pl) + (pov_x + pr) \<in> {img_width img - 1 + 2 * pl, img_width img + 2 * pl}"
    unfolding assms(14) by (rule centered_offset)
  show "textbbox_at B (quote_x, quote_y) quote_font wrapped AlignCenter =
           (quote_x + l, quote_y + t, quote_x + r, quote_y + b)"
    by (simp add: textbbox_at_def assms(13))
  show "(quote_x + l) + (quote_x + r) \<in> {img_width img - 1 + 2 * l, img_width img + 2 * l}"
    unfolding assms(16) by (rule centered_offset)
qed

theorem two_block_layout_witness:
  "pov_font_size 1080 = 90 \<and> pov_quote_font_size 1080 = 60 \<and>
   py_int (fmul (float_of_int 1920) lit_0_05) = 96 \<and>
   try_add_pov_text metric_backend \<lparr>font_path = ''comic.ttf'', output_dir = ''output''\<rparr>
       ''bg.jpg'' ''Discipline beats motivation.'' None =
     (case pov_draw_text_with_outline metric_backend
             (vignette (Image_new (1080, 1920) (20, 20, 30, 255))) (472, 672) ''POV''
             \<lparr>font_file = ''comic.ttf'', font_size = 90\<rparr>
             (255, 255, 255, 255) (0, 0, 0, 255) 2 AlignCenter of
        Inl e \<Rightarrow> (Inl e, [])
      | Inr drawn1 \<Rightarrow>
          (case pov_draw_text_with_outline metric_backend drawn1 (120, 858)
                  (''Discipline'' @ [CHR 0x0A] @ ''beats'' @ [CHR 0x0A] @ ''motivation.'')
                  \<lparr>font_file = ''comic.ttf'', font_size = 60\<rparr>
                  (255, 255, 255, 255) (0, 0, 0, 255) 2 AlignCenter of
             Inl e \<Rightarrow> (Inl e, [])
           | Inr drawn2 \<Rightarrow>
               finish_render metric_backend \<lparr>font_path = ''comic.ttf'', output_dir = ''output''\<rparr>
                 ''bg.jpg'' None ''_pov_quote_centered.jpg'' drawn2)) \<and>
   textbbox_at metric_backend (472, 672) \<lparr>font_file = ''comic.ttf'', font_size = 90\<rparr> ''POV''
       AlignCenter = (472, 687, 607, 777) \<and>
   (472 + 607 :: int) = 1080 - 1 \<and>
   textbbox_at metric_backend (120, 858) \<lparr>font_file = ''comic.ttf'', font_size = 60\<rparr>
       (''Discipline'' @ [CHR 0x0A] @ ''beats'' @ [CHR 0x0A] @ ''motivation.'') AlignCenter =
     (120, 868, 960, 928) \<and>
   (120 + 960 :: int) = 1080"
proof -
  let ?self = "\<lparr>font_path = ''comic.ttf'', output_dir = ''output''\<rparr>"
  let ?img = "Image_new (1080, 1920) (20, 20, 30, 255)"
  let ?f12 = "\<lparr>font_file = ''comic.ttf'', font_size = 90\<rparr>"
  let ?f18 = "\<lparr>font_file = ''comic.ttf'', font_size = 60\<rparr>"
  let ?w = "''Discipline'' @ [CHR 0x0A] @ ''beats'' @ [CHR 0x0A] @ ''motivation.''"
  have 1: "Image_open metric_backend ''bg.jpg'' = Inr ?img"
    by (simp add: metric_backend_def demo_backend_def)
  have 2: "0 \<le> img_width ?img" "img_width ?img < 2 ^ 31"
          "0 \<le> img_height ?img" "img_height ?img < 2 ^ 31" by (simp_all add: Image_new_def)
  have 6: "truetype_error metric_backend (font_path ?self) (img_width ?img div 12) = None"
          "truetype_error metric_backend (font_path ?self) (img_width ?img div 18) = None"
    by (simp_all add: metric_backend_def demo_backend_def Image_new_def)
  have 8: "?f12 = \<lparr>font_file = font_path ?self, font_size = img_width ?img div 12\<rparr>"
          "?f18 = \<lparr>font_file = font_path ?self, font_size = img_width ?img div 18\<rparr>"
    by (simp_all add: Image_new_def)
  have 10: "textbbox metric_backend ?f12 ''POV'' AlignLeft = (0, 15, 135, 105)"
           "textbbox metric_backend ?f12 ''POV'' AlignCenter = (0, 15, 135, 105)"
    by (simp_all add: metric_backend_def)
  have s: "py_split ''Discipline beats motivation.'' = [''Discipline'', ''beats'', ''motivation.'']"
    by code_simp
  have cb: "char_budget 60 1000 = 33" using char_budget_floor[of 1000 60] by simp
  have hf: "fmul (float_of_int 60) lit_0_5 = 30" using half_font_size[of 60] by simp
  have w: "pov_wrap_text metric_backend ''Discipline beats motivation.'' ?f18 1000 = Inr ?w"
    by (simp add: pov_wrap_text_def cb hf metric_backend_def demo_backend_def s)
  have 11: "pov_wrap_text metric_backend ''Discipline beats motivation.'' ?f18
      (img_width ?img - 2 * 40) = Inr ?w"
    using w by (simp add: Image_new_def)
  have 12: "textbbox metric_backend ?f18 ?w AlignCenter = (0, 10, 840, 70)"
    by (simp add: metric_backend_def)
  have 13: "(472::int) = (img_width ?img - (135 - 0)) div 2" by (simp add: Image_new_def)
  have y: "py_int (fmul (float_of_int 1920) lit_0_35) = 672" by code_simp
  have 14: "(672::int) = py_int (fmul (float_of_int (img_height ?img)) lit_0_35)"
    using y by (simp add: Image_new_def)
  have 15: "(120::int) = (img_width ?img - (840 - 0)) div 2" by (simp add: Image_new_def)
  have 16: "(858::int) = 672 + (105 - 15) + img_height ?img div 20" by (simp add: Image_new_def)
  from two_block_layout[OF 1 2 6 8 10 11 12 13 14 15 16, of None]
  show ?thesis by (simp add: Image_new_def)
qed

text \<open>
  C7 as stated fails at the height 180: \<open>0.35 * 180\<close> is 63, and the double nearest to
  0.35 lies below it, so that \<open>int(180 * 0.35)\<close> is 62. It also fails for a caption whose
  measured box starts left of the origin: on a 1080 pixels wide image, the caption
  \<open>just start.\<close> at the size 60, measured from \<open>-2\<close> to 328, is drawn from 373 to 703, two
  pixels left of the centre.
\<close>

theorem label_y_below_floor_caption_off_centre:
  "snd (pov_position (320, 180) (0, 0, 39, 26)) = 62 \<and> \<lfloor>180 * (35 / 100) :: rat\<rfloor> = 63 \<and>
   quote_position (1080, 1920) (0, 15, 135, 105)
       (textbbox metric_backend \<lparr>font_file = ''DejaVuSans-Bold.ttf'', font_size = 60\<rparr>
          ''just start.'' AlignCenter) = (375, 858) \<and>
   textbbox_at metric_backend (375, 858) \<lparr>font_file = ''DejaVuSans-Bold.ttf'', font_size = 60\<rparr>
       ''just start.'' AlignCenter = (373, 868, 703, 928) \<and>
   (373 + 703 :: int) = 1080 - 4"
proof -
  have y180: "py_int (fmul (float_of_int 180) lit_0_35) = 62" by code_simp
  have fl: "\<lfloor>180 * (35 / 100) :: rat\<rfloor> = 63" by (rule floor_unique) simp_all
  have y: "py_int (fmul (float_of_int 1920) lit_0_35) = 672" by code_simp
  have g: "py_int (fmul (float_of_int 1920) lit_0_05) = 1920 div 20" by (rule caption_gap) simp_all
  have bb: "textbbox metric_backend \<lparr>font_file = ''DejaVuSans-Bold.ttf'', font_size = 60\<rparr>
          ''just start.'' AlignCenter = (- 2, 10, 328, 70)"
    by (simp add: metric_backend_def)
  show ?thesis unfolding quote_position_def textbbox_at_def bb
    by (simp add: pov_position_def y180 fl y g)
qed

section \<open>Outcomes of the two renders\<close>

lemma wrap_text_blank: "(\<forall>c\<in>set caption. isspace c) \<Longrightarrow> wrap_text B caption f mw = []"
  by (simp add: wrap_text_def wrap_text_measured_def wrap_lines_def py_split_Nil_iff[THEN iffD2])

lemma finish_render_eq:
  "finish_render B self image_path output_filename suffix drawn =
     ((case save_error B (convert_RGB drawn) (output_name self image_path output_filename suffix) of
         Some e \<Rightarrow> Inl e
       | None \<Rightarrow> Inr (output_name self image_path output_filename suffix)),
      [(output_name self image_path output_filename suffix, convert_RGB drawn)])"
  by (simp add: finish_render_def Let_def split: option.splits)

lemma draw_text_with_outline_calls:
  "draw_text_with_outline B d (x, y) s f fill outline w =
     run_draws B (map (\<lambda>(dx, dy). ((x + dx, y + dy), s, f, outline, AlignLeft)) (outline_offsets w) @
                  [((x, y), s, f, fill, AlignLeft)]) d"
  by (simp add: draw_text_with_outline_def outline_loops run_draws_snoc)

lemma pov_draw_text_with_outline_calls:
  "pov_draw_text_with_outline B d (x, y) s f fill outline w al =
     run_draws B (map (\<lambda>(dx, dy). ((x + dx, y + dy), s, f, outline, al)) (outline_offsets w) @
                  [((x, y), s, f, fill, al)]) d"
  by (simp add: pov_draw_text_with_outline_def outline_loops run_draws_snoc)

lemma run_draws_total:
  "(\<forall>d xy s f ink al. (xy, s, f, ink, al) \<in> set calls \<longrightarrow> (\<exists>d'. draw_text B d xy s f ink al = Inr d'))
   \<Longrightarrow> \<exists>d'. run_draws B calls d = Inr d'"
proof (induction calls arbitrary: d)
  case Nil
  then show ?case by (simp add: run_draws_def)
next
  case (Cons c cs)
  obtain xy s f ink al where c: "c = (xy, s, f, ink, al)" by (cases c)
  from Cons.prems c obtain d1 where d1: "draw_text B d xy s f ink al = Inr d1" by fastforce
  from Cons.prems have "\<forall>d xy s f ink al. (xy, s, f, ink, al) \<in> set cs \<longrightarrow>
      (\<exists>d'. draw_text B d xy s f ink al = Inr d')" by simp
  from Cons.IH[OF this, of d1] obtain d' where "run_draws B cs d1 = Inr d'" by blast
  then show ?case using c d1 by (simp add: run_draws_def)
qed

lemma run_draws_first_fails:
  "draw_text B d xy s f ink al = Inl e \<Longrightarrow> run_draws B ((xy, s, f, ink, al) # cs) d = Inl e"
  by (simp add: run_draws_def)

lemma demo_draw_text_ok:
  "s \<noteq> ''unprintable'' \<Longrightarrow> \<exists>d'. draw_text demo_backend d xy s f ink al = Inr d'"
  by (simp add: demo_backend_def)

lemma demo_draw_text_fails:
  "draw_text demo_backend d xy ''unprintable'' f ink al = Inl (OSError ''invalid glyph data'')"
  by (simp add: demo_backend_def)

lemma demo_outline_ok:
  assumes "s \<noteq> ''unprintable''"
  shows "\<exists>d'. draw_text_with_outline demo_backend d pos s f fill outline w = Inr d'"
proof -
  obtain x y where p: "pos = (x, y)" by (cases pos)
  show ?thesis unfolding p draw_text_with_outline_calls
    by (rule run_draws_total) (use assms in \<open>auto simp: demo_backend_def\<close>)
qed

lemma demo_outline_fails:
  "draw_text_with_outline demo_backend d pos ''unprintable'' f fill outline 2 =
     Inl (OSError ''invalid glyph data'')"
proof -
  obtain x y where p: "pos = (x, y)" by (cases pos)
  have "outline_offsets 2 \<noteq> []" using length_outline_offsets[of 2] by auto
  then obtain o1 os where o: "outline_offsets 2 = o1 # os" by (cases "outline_offsets 2") auto
  obtain dx dy where o1: "o1 = (dx, dy)" by (cases o1)
  show ?thesis unfolding p draw_text_with_outline_calls o o1
    by (simp add: run_draws_first_fails demo_draw_text_fails)
qed

lemma add_text_success:
  assumes "Image_open B image_path = Inr img"
    and "ImageFont_truetype B (font_path self) (quote_font_size (img_width img)) = Inr f"
    and "draw_text_with_outline B (vignette img)
           (centered_position (img_width img, img_height img)
              (textbbox B f (wrap_text B caption f (img_width img - 2 * 20)) AlignLeft))
           (wrap_text B caption f (img_width img - 2 * 20)) f
           (255, 255, 255, 255) (0, 0, 0, 255) 2 = Inr drawn"
    and "save_error B (convert_RGB drawn)
           (output_name self image_path output_filename ''_quote.jpg'') = None"
  shows "add_text_to_image B self image_path caption output_filename =
           \<lparr>returned = Some (output_name self image_path output_filename ''_quote.jpg''),
            printed = [''Created: '' @ output_name self image_path output_filename ''_quote.jpg''],
            save_calls = [(output_name self image_path output_filename ''_quote.jpg'',
                           convert_RGB drawn)]\<rparr>"
  using assms unfolding add_text_to_image_def try_add_text_def Let_def
  by (simp add: finish_render_eq)

lemma demo_output_name:
  "output_name \<lparr>font_path = fp, output_dir = ''output''\<rparr> ''bg.jpg'' None ''_quote.jpg'' =
     ''output/bg_quote.jpg''"
  by (simp add: output_name_def default_name_def path_join_def splitext_root_def basename_def)

lemma demo_truetype_1080:
  "ImageFont_truetype demo_backend fp (quote_font_size (img_width (Image_new (1080, 1920) c))) =
     Inr \<lparr>font_file = fp, font_size = 72\<rparr>"
proof -
  have "quote_font_size 1080 = 1080 div 15" by (rule quote_font_size_div) simp_all
  then show ?thesis by (simp add: ImageFont_truetype_def demo_backend_def Image_new_def)
qed

lemma demo_open: "p \<noteq> ''missing.jpg'' \<Longrightarrow>
  Image_open demo_backend p = Inr (Image_new (1080, 1920) (20, 20, 30, 255))"
  by (simp add: demo_backend_def)

lemma add_text_outcome:
  "add_text_to_image B self image_path caption output_filename =
     (case fst (try_add_text B self image_path caption output_filename) of
        Inr name \<Rightarrow> \<lparr>returned = Some name, printed = [''Created: '' @ name],
                      save_calls = snd (try_add_text B self image_path caption output_filename)\<rparr>
      | Inl e \<Rightarrow> \<lparr>returned = None, printed = [''Error adding text to image: '' @ exn_message e],
                   save_calls = snd (try_add_text B self image_path caption output_filename)\<rparr>)"
  by (cases "try_add_text B self image_path caption output_filename")
     (simp add: add_text_to_image_def split: sum.splits)

lemma demo_missing:
  "try_add_text demo_backend self ''missing.jpg'' caption output_filename =
     (Inl (FileNotFoundError ''No such file or directory: missing.jpg''), [])"
  by (simp add: try_add_text_def demo_backend_def)

lemma demo_unprintable:
  "try_add_text demo_backend \<lparr>font_path = ''DejaVuSans-Bold.ttf'', output_dir = ''output''\<rparr>
     ''bg.jpg'' ''unprintable'' None = (Inl (OSError ''invalid glyph data''), [])"
proof -
  let ?f = "\<lparr>font_file = ''DejaVuSans-Bold.ttf'', font_size = 72\<rparr>"
  have w: "wrap_text demo_backend ''unprintable'' ?f 1040 = ''unprintable''" by code_simp
  have w': "wrap_text demo_backend ''unprintable'' ?f
      (img_width (Image_new (1080, 1920) (20, 20, 30, 255)) - 40) = ''unprintable''"
    using w by (simp add: Image_new_def)
  show ?thesis
    unfolding try_add_text_def Let_def
    by (simp add: demo_open demo_truetype_1080 w' demo_outline_fails)
qed

lemma pov_demo_outline_ok:
  assumes "s \<noteq> ''unprintable''"
  shows "\<exists>d'. pov_draw_text_with_outline demo_backend d pos s f fill outline w al = Inr d'"
proof -
  obtain x y where p: "pos = (x, y)" by (cases pos)
  show ?thesis unfolding p pov_draw_text_with_outline_calls
    by (rule run_draws_total) (use assms in \<open>auto simp: demo_backend_def\<close>)
qed

lemma pov_demo_outline_fails:
  "pov_draw_text_with_outline demo_backend d pos ''unprintable'' f fill outline 2 al =
     Inl (OSError ''invalid glyph data'')"
proof -
  obtain x y where p: "pos = (x, y)" by (cases pos)
  have "outline_offsets 2 \<noteq> []" using length_outline_offsets[of 2] by auto
  then obtain o1 os where o: "outline_offsets 2 = o1 # os" by (cases "outline_offsets 2") auto
  obtain dx dy where o1: "o1 = (dx, dy)" by (cases o1)
  show ?thesis unfolding p pov_draw_text_with_outline_calls o o1
    by (simp add: run_draws_first_fails demo_draw_text_fails)
qed

lemma outline_total:
  assumes "\<And>d xy ink al. \<exists>d'. draw_text B d xy s f ink al = Inr d'"
  shows "\<exists>d'. draw_text_with_outline B d pos s f fill outline w = Inr d'"
proof -
  obtain x y where p: "pos = (x, y)" by (cases pos)
  show ?thesis unfolding p draw_text_with_outline_calls
    by (rule run_draws_total) (use assms in auto)
qed

lemma demo_pov_wrap_unprintable:
  "pov_wrap_text demo_backend ''unprintable'' \<lparr>font_file = fp, font_size = 60\<rparr> 1000 =
     Inr ''unprintable''"
proof -
  have s: "py_split ''unprintable'' = [''unprintable'']" by code_simp
  have cb: "char_budget 60 1000 = 33" using char_budget_floor[of 1000 60] by simp
  have hf: "fmul (float_of_int 60) lit_0_5 = 30" using half_font_size[of 60] by simp
  show ?thesis by (simp add: pov_wrap_text_def cb hf demo_backend_def s)
qed

section \<open>Blank captions\<close>

text \<open>
  C3, as amended. \<open>add_text_to_image\<close> does not reject a caption that is empty or holds
  only whitespace: the wrapped text is the empty string, and when the image opens, the
  font loads, and drawing and saving succeed, the call hands the composited image to
  \<open>save\<close> once, prints the name and returns the output file name.
\<close>

theorem blank_caption_is_rendered:
  assumes "\<forall>c\<in>set caption. isspace c"
    and "Image_open B image_path = Inr img"
    and "ImageFont_truetype B (font_path self) (quote_font_size (img_width img)) = Inr f"
    and "draw_text_with_outline B (vignette img)
           (centered_position (img_width img, img_height img) (textbbox B f [] AlignLeft))
           [] f (255, 255, 255, 255) (0, 0, 0, 255) 2 = Inr drawn"
    and "save_error B (convert_RGB drawn)
           (output_name self image_path output_filename ''_quote.jpg'') = None"
  shows "wrap_text B caption f (img_width img - 2 * 20) = [] \<and>
         add_text_to_image B self image_path caption output_filename =
           \<lparr>returned = Some (output_name self image_path output_filename ''_quote.jpg''),
            printed = [''Created: '' @ output_name self image_path output_filename ''_quote.jpg''],
            save_calls = [(output_name self image_path output_filename ''_quote.jpg'',
                           convert_RGB drawn)]\<rparr>"
proof
  show w: "wrap_text B caption f (img_width img - 2 * 20) = []"
    using assms(1) by (rule wrap_text_blank)
  have d: "draw_text_with_outline B (vignette img)
           (centered_position (img_width img, img_height img)
              (textbbox B f (wrap_text B caption f (img_width img - 2 * 20)) AlignLeft))
           (wrap_text B caption f (img_width img - 2 * 20)) f
           (255, 255, 255, 255) (0, 0, 0, 255) 2 = Inr drawn"
    unfolding w by (rule assms(4))
  show "add_text_to_image B self image_path caption output_filename =
           \<lparr>returned = Some (output_name self image_path output_filename ''_quote.jpg''),
            printed = [''Created: '' @ output_name self image_path output_filename ''_quote.jpg''],
            save_calls = [(output_name self image_path output_filename ''_quote.jpg'',
                           convert_RGB drawn)]\<rparr>"
    by (rule add_text_success[OF assms(2) assms(3) d assms(5)])
qed

theorem blank_caption_is_rendered_witness:
  "wrap_text demo_backend [CHR 0x09, CHR 0x0A] \<lparr>font_file = ''DejaVuSans-Bold.ttf'', font_size = 72\<rparr>
     (img_width (Image_new (1080, 1920) (20, 20, 30, 255)) - 2 * 20) = [] \<and>
   returned (add_text_to_image demo_backend
       \<lparr>font_path = ''DejaVuSans-Bold.ttf'', output_dir = ''output''\<rparr> ''bg.jpg''
       [CHR 0x09, CHR 0x0A] None) = Some ''output/bg_quote.jpg''"
proof -
  let ?self = "\<lparr>font_path = ''DejaVuSans-Bold.ttf'', output_dir = ''output''\<rparr>"
  let ?img = "Image_new (1080, 1920) (20, 20, 30, 255)"
  let ?f = "\<lparr>font_file = ''DejaVuSans-Bold.ttf'', font_size = 72\<rparr>"
  have 1: "\<forall>c\<in>set [CHR 0x09, CHR 0x0A]. isspace c" by (simp add: isspace_def)
  have 2: "Image_open demo_backend ''bg.jpg'' = Inr ?img" by (simp add: demo_open)
  have 3: "ImageFont_truetype demo_backend (font_path ?self) (quote_font_size (img_width ?img)) = Inr ?f"
    using demo_truetype_1080[of "''DejaVuSans-Bold.ttf''"] by simp
  obtain drawn where 4: "draw_text_with_outline demo_backend (vignette ?img)
           (centered_position (img_width ?img, img_height ?img) (textbbox demo_backend ?f [] AlignLeft))
           [] ?f (255, 255, 255, 255) (0, 0, 0, 255) 2 = Inr drawn"
  proof -
    have "\<exists>d'. draw_text_with_outline demo_backend (vignette ?img)
           (centered_position (img_width ?img, img_height ?img) (textbbox demo_backend ?f [] AlignLeft))
           [] ?f (255, 255, 255, 255) (0, 0, 0, 255) 2 = Inr d'"
      by (rule demo_outline_ok) simp
    then show ?thesis using that by blast
  qed
  have 5: "save_error demo_backend (convert_RGB drawn)
           (output_name ?self ''bg.jpg'' None ''_quote.jpg'') = None"
    by (simp add: demo_backend_def)
  from blank_caption_is_rendered[OF 1 2 3 4 5]
  show ?thesis by (simp add: demo_output_name)
qed

text \<open>
  C3 as stated fails: for the captions of three spaces and of no character, on a
  readable image, the call returns the output file name and makes one call of \<open>save\<close>.
\<close>

theorem blank_caption_not_rejected:
  "returned (add_text_to_image demo_backend
       \<lparr>font_path = ''DejaVuSans-Bold.ttf'', output_dir = ''output''\<rparr> ''bg.jpg'' ''   '' None) =
     Some ''output/bg_quote.jpg'' \<and>
   length (save_calls (add_text_to_image demo_backend
       \<lparr>font_path = ''DejaVuSans-Bold.ttf'', output_dir = ''output''\<rparr> ''bg.jpg'' ''   '' None)) = 1 \<and>
   returned (add_text_to_image demo_backend
       \<lparr>font_path = ''DejaVuSans-Bold.ttf'', output_dir = ''output''\<rparr> ''bg.jpg'' '''' None) =
     Some ''output/bg_quote.jpg'' \<and>
   length (save_calls (add_text_to_image demo_backend
       \<lparr>font_path = ''DejaVuSans-Bold.ttf'', output_dir = ''output''\<rparr> ''bg.jpg'' '''' None)) = 1"
proof -
  let ?self = "\<lparr>font_path = ''DejaVuSans-Bold.ttf'', output_dir = ''output''\<rparr>"
  let ?img = "Image_new (1080, 1920) (20, 20, 30, 255)"
  let ?f = "\<lparr>font_file = ''DejaVuSans-Bold.ttf'', font_size = 72\<rparr>"
  have r: "returned (add_text_to_image demo_backend ?self ''bg.jpg'' caption None) =
             Some ''output/bg_quote.jpg'' \<and>
           length (save_calls (add_text_to_image demo_backend ?self ''bg.jpg'' caption None)) = 1"
    if blank: "\<forall>c\<in>set caption. isspace c" for caption
  proof -
    have w: "wrap_text demo_backend caption ?f (img_width ?img - 2 * 20) = []"
      using blank by (rule wrap_text_blank)
    have 2: "Image_open demo_backend ''bg.jpg'' = Inr ?img" by (simp add: demo_open)
    have 3: "ImageFont_truetype demo_backend (font_path ?self) (quote_font_size (img_width ?img)) = Inr ?f"
      using demo_truetype_1080[of "''DejaVuSans-Bold.ttf''"] by simp
    obtain drawn where 4: "draw_text_with_outline demo_backend (vignette ?img)
           (centered_position (img_width ?img, img_height ?img)
              (textbbox demo_backend ?f (wrap_text demo_backend caption ?f (img_width ?img - 2 * 20))
                 AlignLeft))
           (wrap_text demo_backend caption ?f (img_width ?img - 2 * 20)) ?f
           (255, 255, 255, 255) (0, 0, 0, 255) 2 = Inr drawn"
    proof -
      have "\<exists>d'. draw_text_with_outline demo_backend (vignette ?img)
           (centered_position (img_width ?img, img_height ?img) (textbbox demo_backend ?f [] AlignLeft))
           [] ?f (255, 255, 255, 255) (0, 0, 0, 255) 2 = Inr d'"
        by (rule demo_outline_ok) simp
      then show ?thesis using that unfolding w by blast
    qed
    have 5: "save_error demo_backend (convert_RGB drawn)
           (output_name ?self ''bg.jpg'' None ''_quote.jpg'') = None"
      by (simp add: demo_backend_def)
    from add_text_success[OF 2 3 4 5] show ?thesis by (simp add: demo_output_name)
  qed
  have a: "\<forall>c\<in>set ''   ''. isspace c" by (simp add: isspace_def)
  have b: "\<forall>c\<in>set ''''. isspace c" by simp
  from r[OF a] r[OF b] show ?thesis by simp
qed

section \<open>Failed renders\<close>

text \<open>
  C9, as amended. In both renders, when a stage fails before \<open>save\<close> is reached (the
  image cannot be opened, a font cannot be loaded, the wrap raises, a call of \<open>draw.text\<close>
  raises), the call makes no call of \<open>save\<close>, prints the message of that exception and
  returns \<open>None\<close>. When \<open>save\<close> itself raises, the call has handed it the final image
  (the vignetted background with every text block drawn, converted to RGB), prints the
  message of that exception and returns \<open>None\<close>. When nothing fails, \<open>save\<close> is handed
  the final image once and the call returns the name of the file. The value returned
  after a failure is \<open>None\<close> whatever the exception was.
\<close>

theorem failed_render_saves_nothing_partial:
  "(\<forall>e. Image_open B image_path = Inl e \<longrightarrow>
      add_text_to_image B self image_path caption output_filename =
        \<lparr>returned = None, printed = [''Error adding text to image: '' @ exn_message e],
         save_calls = []\<rparr>) \<and>
   (\<forall>img e. Image_open B image_path = Inr img \<and>
      ImageFont_truetype B (font_path self) (quote_font_size (img_width img)) = Inl e \<longrightarrow>
      add_text_to_image B self image_path caption output_filename =
        \<lparr>returned = None, printed = [''Error adding text to image: '' @ exn_message e],
         save_calls = []\<rparr>) \<and>
   (\<forall>img f wrapped pos e. Image_open B image_path = Inr img \<and>
      ImageFont_truetype B (font_path self) (quote_font_size (img_width img)) = Inr f \<and>
      wrapped = wrap_text B caption f (img_width img - 2 * 20) \<and>
      pos = centered_position (img_width img, img_height img) (textbbox B f wrapped AlignLeft) \<and>
      draw_text_with_outline B (vignette img) pos wrapped f
        (255, 255, 255, 255) (0, 0, 0, 255) 2 = Inl e \<longrightarrow>
      add_text_to_image B self image_path caption output_filename =
        \<lparr>returned = None, printed = [''Error adding text to image: '' @ exn_message e],
         save_calls = []\<rparr>) \<and>
   (\<forall>img f wrapped pos drawn name e. Image_open B image_path = Inr img \<and>
      ImageFont_truetype B (font_path self) (quote_font_size (img_width img)) = Inr f \<and>
      wrapped = wrap_text B caption f (img_width img - 2 * 20) \<and>
      pos = centered_position (img_width img, img_height img) (textbbox B f wrapped AlignLeft) \<and>
      draw_text_with_outline B (vignette img) pos wrapped f
        (255, 255, 255, 255) (0, 0, 0, 255) 2 = Inr drawn \<and>
      name = output_name self image_path output_filename ''_quote.jpg'' \<and>
      save_error B (convert_RGB drawn) name = Some e \<longrightarrow>
      add_text_to_image B self image_path caption output_filename =
        \<lparr>returned = None, printed = [''Error adding text to image: '' @ exn_message e],
         save_calls = [(name, convert_RGB drawn)]\<rparr>) \<and>
   (\<forall>img f wrapped pos drawn name. Image_open B image_path = Inr img \<and>
      ImageFont_truetype B (font_path self) (quote_font_size (img_width img)) = Inr f \<and>
      wrapped = wrap_text B caption f (img_width img - 2 * 20) \<and>
      pos = centered_position (img_width img, img_height img) (textbbox B f wrapped AlignLeft) \<and>
      draw_text_with_outline B (vignette img) pos wrapped f
        (255, 255, 255, 255) (0, 0, 0, 255) 2 = Inr drawn \<and>
      name = output_name self image_path output_filename ''_quote.jpg'' \<and>
      save_error B (convert_RGB drawn) name = None \<longrightarrow>
      add_text_to_image B self image_path caption output_filename =
        \<lparr>returned = Some name, printed = [''Created: '' @ name],
         save_calls = [(name, convert_RGB drawn)]\<rparr>) \<and>
   (\<forall>e. Image_open B image_path = Inl e \<longrightarrow>
      add_pov_text_to_image B self image_path caption output_filename =
        \<lparr>returned = None,
         printed = [''Error adding centered POV text to image: '' @ exn_message e],
         save_calls = []\<rparr>) \<and>
   (\<forall>img e. Image_open B image_path = Inr img \<and>
      (ImageFont_truetype B (font_path self) (pov_font_size (img_width img)) = Inl e \<or>
       (\<exists>pov_font. ImageFont_truetype B (font_path self) (pov_font_size (img_width img)) =
            Inr pov_font \<and>
          ImageFont_truetype B (font_path self) (pov_quote_font_size (img_width img)) = Inl e)) \<longrightarrow>
      add_pov_text_to_image B self image_path caption output_filename =
        \<lparr>returned = None,
         printed = [''Error adding centered POV text to image: '' @ exn_message e],
         save_calls = []\<rparr>) \<and>
   (\<forall>img pov_font quote_font e. Image_open B image_path = Inr img \<and>
      ImageFont_truetype B (font_path self) (pov_font_size (img_width img)) = Inr pov_font \<and>
      ImageFont_truetype B (font_path self) (pov_quote_font_size (img_width img)) = Inr quote_font \<and>
      pov_wrap_text B caption quote_font (img_width img - 2 * 40) = Inl e \<longrightarrow>
      add_pov_text_to_image B self image_path caption output_filename =
        \<lparr>returned = None,
         printed = [''Error adding centered POV text to image: '' @ exn_message e],
         save_calls = []\<rparr>) \<and>
   (\<forall>img pov_font quote_font wrapped pov_bbox pos1 pos2 e. Image_open B image_path = Inr img \<and>
      ImageFont_truetype B (font_path self) (pov_font_size (img_width img)) = Inr pov_font \<and>
      ImageFont_truetype B (font_path self) (pov_quote_font_size (img_width img)) = Inr quote_font \<and>
      pov_wrap_text B caption quote_font (img_width img - 2 * 40) = Inr wrapped \<and>
      pov_bbox = textbbox B pov_font ''POV'' AlignLeft \<and>
      pos1 = pov_position (img_width img, img_height img) pov_bbox \<and>
      pos2 = quote_position (img_width img, img_height img) pov_bbox
               (textbbox B quote_font wrapped AlignCenter) \<and>
      (pov_draw_text_with_outline B (vignette img) pos1 ''POV'' pov_font
         (255, 255, 255, 255) (0, 0, 0, 255) 2 AlignCenter = Inl e \<or>
       (\<exists>drawn1. pov_draw_text_with_outline B (vignette img) pos1 ''POV'' pov_font
            (255, 255, 255, 255) (0, 0, 0, 255) 2 AlignCenter = Inr drawn1 \<and>
          pov_draw_text_with_outline B drawn1 pos2 wrapped quote_font
            (255, 255, 255, 255) (0, 0, 0, 255) 2 AlignCenter = Inl e)) \<longrightarrow>
      add_pov_text_to_image B self image_path caption output_filename =
        \<lparr>returned = None,
         printed = [''Error adding centered POV text to image: '' @ exn_message e],
         save_calls = []\<rparr>) \<and>
   (\<forall>img pov_font quote_font wrapped pov_bbox pos1 pos2 drawn1 drawn2 name e.
      Image_open B image_path = Inr img \<and>
      ImageFont_truetype B (font_path self) (pov_font_size (img_width img)) = Inr pov_font \<and>
      ImageFont_truetype B (font_path self) (pov_quote_font_size (img_width img)) = Inr quote_font \<and>
      pov_wrap_text B caption quote_font (img_width img - 2 * 40) = Inr wrapped \<and>
      pov_bbox = textbbox B pov_font ''POV'' AlignLeft \<and>
      pos1 = pov_position (img_width img, img_height img) pov_bbox \<and>
      pos2 = quote_position (img_width img, img_height img) pov_bbox
               (textbbox B quote_font wrapped AlignCenter) \<and>
      pov_draw_text_with_outline B (vignette img) pos1 ''POV'' pov_font
        (255, 255, 255, 255) (0, 0, 0, 255) 2 AlignCenter = Inr drawn1 \<and>
      pov_draw_text_with_outline B drawn1 pos2 wrapped quote_font
        (255, 255, 255, 255) (0, 0, 0, 255) 2 AlignCenter = Inr drawn2 \<and>
      name = output_name self image_path output_filename ''_pov_quote_centered.jpg'' \<and>
      save_error B (convert_RGB drawn2) name = Some e \<longrightarrow>
      add_pov_text_to_image B self image_path caption output_filename =
        \<lparr>returned = None,
         printed = [''Error adding centered POV text to image: '' @ exn_message e],
         save_calls = [(name, convert_RGB drawn2)]\<rparr>) \<and>
   (\<forall>img pov_font quote_font wrapped pov_bbox pos1 pos2 drawn1 drawn2 name.
      Image_open B image_path = Inr img \<and>
      ImageFont_truetype B (font_path self) (pov_font_size (img_width img)) = Inr pov_font \<and>
      ImageFont_truetype B (font_path self) (pov_quote_font_size (img_width img)) = Inr quote_font \<and>
      pov_wrap_text B caption quote_font (img_width img - 2 * 40) = Inr wrapped \<and>
      pov_bbox = textbbox B pov_font ''POV'' AlignLeft \<and>
      pos1 = pov_position (img_width img, img_height img) pov_bbox \<and>
      pos2 = quote_position (img_width img, img_height img) pov_bbox
               (textbbox B quote_font wrapped AlignCenter) \<and>
      pov_draw_text_with_outline B (vignette img) pos1 ''POV'' pov_font
        (255, 255, 255, 255) (0, 0, 0, 255) 2 AlignCenter = Inr drawn1 \<and>
      pov_draw_text_with_outline B drawn1 pos2 wrapped quote_font
        (255, 255, 255, 255) (0, 0, 0, 255) 2 AlignCenter = Inr drawn2 \<and>
      name = output_name self image_path output_filename ''_pov_quote_centered.jpg'' \<and>
      save_error B (convert_RGB drawn2) name = None \<longrightarrow>
      add_pov_text_to_image B self image_path caption output_filename =
        \<lparr>returned = Some name, printed = [''Created: '' @ name],
         save_calls = [(name, convert_RGB drawn2)]\<rparr>)"
proof (intro conjI allI impI; (elim conjE)?)
  fix e assume "Image_open B image_path = Inl e"
  then show "add_text_to_image B self image_path caption output_filename =
        \<lparr>returned = None, printed = [''Error adding text to image: '' @ exn_message e],
         save_calls = []\<rparr>"
    by (simp add: add_text_to_image_def try_add_text_def)
next
  fix img e
  assume "Image_open B image_path = Inr img"
    "ImageFont_truetype B (font_path self) (quote_font_size (img_width img)) = Inl e"
  then show "add_text_to_image B self image_path caption output_filename =
        \<lparr>returned = None, printed = [''Error adding text to image: '' @ exn_message e],
         save_calls = []\<rparr>"
    by (simp add: add_text_to_image_def try_add_text_def Let_def)
next
  fix img f wrapped pos e
  assume "Image_open B image_path = Inr img"
    "ImageFont_truetype B (font_path self) (quote_font_size (img_width img)) = Inr f"
    "wrapped = wrap_text B caption f (img_width img - 2 * 20)"
    "pos = centered_position (img_width img, img_height img) (textbbox B f wrapped AlignLeft)"
    "draw_text_with_outline B (vignette img) pos wrapped f
        (255, 255, 255, 255) (0, 0, 0, 255) 2 = Inl e"
  then show "add_text_to_image B self image_path caption output_filename =
        \<lparr>returned = None, printed = [''Error adding text to image: '' @ exn_message e],
         save_calls = []\<rparr>"
    by (simp add: add_text_to_image_def try_add_text_def Let_def)
next
  fix img f wrapped pos drawn name e
  assume "Image_open B image_path = Inr img"
    "ImageFont_truetype B (font_path self) (quote_font_size (img_width img)) = Inr f"
    "wrapped = wrap_text B caption f (img_width img - 2 * 20)"
    "pos = centered_position (img_width img, img_height img) (textbbox B f wrapped AlignLeft)"
    "draw_text_with_outline B (vignette img) pos wrapped f
        (255, 255, 255, 255) (0, 0, 0, 255) 2 = Inr drawn"
    "name = output_name self image_path output_filename ''_quote.jpg''"
    "save_error B (convert_RGB drawn) name = Some e"
  then show "add_text_to_image B self image_path caption output_filename =
        \<lparr>returned = None, printed = [''Error adding text to image: '' @ exn_message e],
         save_calls = [(name, convert_RGB drawn)]\<rparr>"
    by (simp add: add_text_to_image_def try_add_text_def Let_def finish_render_eq)
next
  fix img f wrapped pos drawn name
  assume "Image_open B image_path = Inr img"
    "ImageFont_truetype B (font_path self) (quote_font_size (img_width img)) = Inr f"
    "wrapped = wrap_text B caption f (img_width img - 2 * 20)"
    "pos = centered_position (img_width img, img_height img) (textbbox B f wrapped AlignLeft)"
    "draw_text_with_outline B (vignette img) pos wrapped f
        (255, 255, 255, 255) (0, 0, 0, 255) 2 = Inr drawn"
    "name = output_name self image_path output_filename ''_quote.jpg''"
    "save_error B (convert_RGB drawn) name = None"
  then show "add_text_to_image B self image_path caption output_filename =
        \<lparr>returned = Some name, printed = [''Created: '' @ name],
         save_calls = [(name, convert_RGB drawn)]\<rparr>"
    by (simp add: add_text_to_image_def try_add_text_def Let_def finish_render_eq)
next
  fix e assume "Image_open B image_path = Inl e"
  then show "add_pov_text_to_image B self image_path caption output_filename =
        \<lparr>returned = None,
         printed = [''Error adding centered POV text to image: '' @ exn_message e],
         save_calls = []\<rparr>"
    by (simp add: add_pov_text_to_image_def try_add_pov_text_def)
next
  fix img e
  assume "Image_open B image_path = Inr img"
    "ImageFont_truetype B (font_path self) (pov_font_size (img_width img)) = Inl e \<or>
       (\<exists>pov_font. ImageFont_truetype B (font_path self) (pov_font_size (img_width img)) =
            Inr pov_font \<and>
          ImageFont_truetype B (font_path self) (pov_quote_font_size (img_width img)) = Inl e)"
  then show "add_pov_text_to_image B self image_path caption output_filename =
        \<lparr>returned = None,
         printed = [''Error adding centered POV text to image: '' @ exn_message e],
         save_calls = []\<rparr>"
    by (auto simp: add_pov_text_to_image_def try_add_pov_text_def Let_def)
next
  fix img pov_font quote_font e
  assume "Image_open B image_path = Inr img"
    "ImageFont_truetype B (font_path self) (pov_font_size (img_width img)) = Inr pov_font"
    "ImageFont_truetype B (font_path self) (pov_quote_font_size (img_width img)) = Inr quote_font"
    "pov_wrap_text B caption quote_font (img_width img - 2 * 40) = Inl e"
  then show "add_pov_text_to_image B self image_path caption output_filename =
        \<lparr>returned = None,
         printed = [''Error adding centered POV text to image: '' @ exn_message e],
         save_calls = []\<rparr>"
    by (simp add: add_pov_text_to_image_def try_add_pov_text_def Let_def)
next
  fix img pov_font quote_font wrapped pov_bbox pos1 pos2 e
  assume "Image_open B image_path = Inr img"
    "ImageFont_truetype B (font_path self) (pov_font_size (img_width img)) = Inr pov_font"
    "ImageFont_truetype B (font_path self) (pov_quote_font_size (img_width img)) = Inr quote_font"
    "pov_wrap_text B caption quote_font (img_width img - 2 * 40) = Inr wrapped"
    "pov_bbox = textbbox B pov_font ''POV'' AlignLeft"
    "pos1 = pov_position (img_width img, img_height img) pov_bbox"
    "pos2 = quote_position (img_width img, img_height img) pov_bbox
               (textbbox B quote_font wrapped AlignCenter)"
    "pov_draw_text_with_outline B (vignette img) pos1 ''POV'' pov_font
         (255, 255, 255, 255) (0, 0, 0, 255) 2 AlignCenter = Inl e \<or>
       (\<exists>drawn1. pov_draw_text_with_outline B (vignette img) pos1 ''POV'' pov_font
            (255, 255, 255, 255) (0, 0, 0, 255) 2 AlignCenter = Inr drawn1 \<and>
          pov_draw_text_with_outline B drawn1 pos2 wrapped quote_font
            (255, 255, 255, 255) (0, 0, 0, 255) 2 AlignCenter = Inl e)"
  then show "add_pov_text_to_image B self image_path caption output_filename =
        \<lparr>returned = None,
         printed = [''Error adding centered POV text to image: '' @ exn_message e],
         save_calls = []\<rparr>"
    by (auto simp: add_pov_text_to_image_def try_add_pov_text_def Let_def)
next
  fix img pov_font quote_font wrapped pov_bbox pos1 pos2 drawn1 drawn2 name e
  assume "Image_open B image_path = Inr img"
    "ImageFont_truetype B (font_path self) (pov_font_size (img_width img)) = Inr pov_font"
    "ImageFont_truetype B (font_path self) (pov_quote_font_size (img_width img)) = Inr quote_font"
    "pov_wrap_text B caption quote_font (img_width img - 2 * 40) = Inr wrapped"
    "pov_bbox = textbbox B pov_font ''POV'' AlignLeft"
    "pos1 = pov_position (img_width img, img_height img) pov_bbox"
    "pos2 = quote_position (img_width img, img_height img) pov_bbox
               (textbbox B quote_font wrapped AlignCenter)"
    "pov_draw_text_with_outline B (vignette img) pos1 ''POV'' pov_font
        (255, 255, 255, 255) (0, 0, 0, 255) 2 AlignCenter = Inr drawn1"
    "pov_draw_text_with_outline B drawn1 pos2 wrapped quote_font
        (255, 255, 255, 255) (0, 0, 0, 255) 2 AlignCenter = Inr drawn2"
    "name = output_name self image_path output_filename ''_pov_quote_centered.jpg''"
    "save_error B (convert_RGB drawn2) name = Some e"
  then show "add_pov_text_to_image B self image_path caption output_filename =
        \<lparr>returned = None,
         printed = [''Error adding centered POV text to image: '' @ exn_message e],
         save_calls = [(name, convert_RGB drawn2)]\<rparr>"
    by (simp add: add_pov_text_to_image_def try_add_pov_text_def Let_def finish_render_eq)
next
  fix img pov_font quote_font wrapped pov_bbox pos1 pos2 drawn1 drawn2 name
  assume "Image_open B image_path = Inr img"
    "ImageFont_truetype B (font_path self) (pov_font_size (img_width img)) = Inr pov_font"
    "ImageFont_truetype B (font_path self) (pov_quote_font_size (img_width img)) = Inr quote_font"
    "pov_wrap_text B caption quote_font (img_width img - 2 * 40) = Inr wrapped"
    "pov_bbox = textbbox B pov_font ''POV'' AlignLeft"
    "pos1 = pov_position (img_width img, img_height img) pov_bbox"
    "pos2 = quote_position (img_width img, img_height img) pov_bbox
               (textbbox B quote_font wrapped AlignCenter)"
    "pov_draw_text_with_outline B (vignette img) pos1 ''POV'' pov_font
        (255, 255, 255, 255) (0, 0, 0, 255) 2 AlignCenter = Inr drawn1"
    "pov_draw_text_with_outline B drawn1 pos2 wrapped quote_font
        (255, 255, 255, 255) (0, 0, 0, 255) 2 AlignCenter = Inr drawn2"
    "name = output_name self image_path output_filename ''_pov_quote_centered.jpg''"
    "save_error B (convert_RGB drawn2) name = None"
  then show "add_pov_text_to_image B self image_path caption output_filename =
        \<lparr>returned = Some name, printed = [''Created: '' @ name],
         save_calls = [(name, convert_RGB drawn2)]\<rparr>"
    by (simp add: add_pov_text_to_image_def try_add_pov_text_def Let_def finish_render_eq)
qed

theorem failed_render_saves_nothing_partial_witness:
  "add_text_to_image demo_backend \<lparr>font_path = ''DejaVuSans-Bold.ttf'', output_dir = ''output''\<rparr>
       ''missing.jpg'' ''Go'' None =
     \<lparr>returned = None,
      printed = [''Error adding text to image: '' @ ''No such file or directory: missing.jpg''],
      save_calls = []\<rparr> \<and>
   add_text_to_image (demo_backend\<lparr>Image_open := \<lambda>p. Inr (Image_new (10, 10) (20, 20, 30, 255))\<rparr>)
       \<lparr>font_path = ''DejaVuSans-Bold.ttf'', output_dir = ''output''\<rparr> ''tiny.jpg'' ''Go'' None =
     \<lparr>returned = None,
      printed = [''Error adding text to image: '' @ ''font size must be greater than 0''],
      save_calls = []\<rparr> \<and>
   add_text_to_image demo_backend \<lparr>font_path = ''DejaVuSans-Bold.ttf'', output_dir = ''output''\<rparr>
       ''bg.jpg'' ''unprintable'' None =
     \<lparr>returned = None, printed = [''Error adding text to image: '' @ ''invalid glyph data''],
      save_calls = []\<rparr> \<and>
   (\<exists>final.
      add_text_to_image
          (demo_backend\<lparr>save_error := \<lambda>im p. Some (OSError ''No space left on device'')\<rparr>)
          \<lparr>font_path = ''DejaVuSans-Bold.ttf'', output_dir = ''output''\<rparr> ''bg.jpg'' ''Go'' None =
        \<lparr>returned = None, printed = [''Error adding text to image: '' @ ''No space left on device''],
         save_calls = [(''output/bg_quote.jpg'', final)]\<rparr>) \<and>
   add_pov_text_to_image demo_backend \<lparr>font_path = ''DejaVuSans-Bold.ttf'', output_dir = ''output''\<rparr>
       ''missing.jpg'' ''Go'' None =
     \<lparr>returned = None,
      printed = [''Error adding centered POV text to image: '' @
                 ''No such file or directory: missing.jpg''],
      save_calls = []\<rparr> \<and>
   add_pov_text_to_image demo_backend \<lparr>font_path = ''DejaVuSans-Bold.ttf'', output_dir = ''output''\<rparr>
       ''bg.jpg'' ''unprintable'' None =
     \<lparr>returned = None,
      printed = [''Error adding centered POV text to image: '' @ ''invalid glyph data''],
      save_calls = []\<rparr>"
proof -
  let ?self = "\<lparr>font_path = ''DejaVuSans-Bold.ttf'', output_dir = ''output''\<rparr>"
  let ?img = "Image_new (1080, 1920) (20, 20, 30, 255)"
  let ?f = "\<lparr>font_file = ''DejaVuSans-Bold.ttf'', font_size = 72\<rparr>"
  let ?tiny = "demo_backend\<lparr>Image_open := \<lambda>p. Inr (Image_new (10, 10) (20, 20, 30, 255))\<rparr>"
  let ?full = "demo_backend\<lparr>save_error := \<lambda>im p. Some (OSError ''No space left on device'')\<rparr>"
  note stages = failed_render_saves_nothing_partial
  have miss: "Image_open demo_backend ''missing.jpg'' =
      Inl (FileNotFoundError ''No such file or directory: missing.jpg'')"
    by (simp add: demo_backend_def)
  have op: "Image_open demo_backend ''bg.jpg'' = Inr ?img" by (simp add: demo_open)
  have tt: "ImageFont_truetype demo_backend (font_path ?self) (quote_font_size (img_width ?img)) = Inr ?f"
    using demo_truetype_1080[of "''DejaVuSans-Bold.ttf''"] by simp
  have a: "add_text_to_image demo_backend ?self ''missing.jpg'' ''Go'' None =
     \<lparr>returned = None,
      printed = [''Error adding text to image: '' @ ''No such file or directory: missing.jpg''],
      save_calls = []\<rparr>"
    using stages[of demo_backend "''missing.jpg''" ?self "''Go''" None] miss by simp
  have b: "add_text_to_image ?tiny ?self ''tiny.jpg'' ''Go'' None =
     \<lparr>returned = None,
      printed = [''Error adding text to image: '' @ ''font size must be greater than 0''],
      save_calls = []\<rparr>"
  proof -
    have 1: "Image_open ?tiny ''tiny.jpg'' = Inr (Image_new (10, 10) (20, 20, 30, 255))" by simp
    have "quote_font_size 10 = 10 div 15" by (rule quote_font_size_div) simp_all
    then have 2: "ImageFont_truetype ?tiny (font_path ?self)
        (quote_font_size (img_width (Image_new (10, 10) (20, 20, 30, 255)))) =
        Inl (ValueError ''font size must be greater than 0'')"
      by (simp add: ImageFont_truetype_def demo_backend_def Image_new_def)
    from stages[of ?tiny "''tiny.jpg''" ?self "''Go''" None] 1 2
    show ?thesis by simp
  qed
  have c: "add_text_to_image demo_backend ?self ''bg.jpg'' ''unprintable'' None =
     \<lparr>returned = None, printed = [''Error adding text to image: '' @ ''invalid glyph data''],
      save_calls = []\<rparr>"
  proof -
    have d: "draw_text_with_outline demo_backend (vignette ?img)
        (centered_position (img_width ?img, img_height ?img)
           (textbbox demo_backend ?f (wrap_text demo_backend ''unprintable'' ?f (img_width ?img - 2 * 20))
              AlignLeft))
        (wrap_text demo_backend ''unprintable'' ?f (img_width ?img - 2 * 20)) ?f
        (255, 255, 255, 255) (0, 0, 0, 255) 2 = Inl (OSError ''invalid glyph data'')"
    proof -
      have w: "wrap_text demo_backend ''unprintable'' ?f 1040 = ''unprintable''" by code_simp
      have w': "wrap_text demo_backend ''unprintable'' ?f (img_width ?img - 2 * 20) = ''unprintable''"
        using w by (simp add: Image_new_def)
      show ?thesis unfolding w' by (rule demo_outline_fails)
    qed
    from stages[of demo_backend "''bg.jpg''" ?self "''unprintable''" None,
        THEN conjunct2, THEN conjunct2, THEN conjunct1, rule_format, OF conjI[OF op conjI[OF tt
          conjI[OF refl conjI[OF refl d]]]]]
    show ?thesis by simp
  qed
  have d: "\<exists>final. add_text_to_image ?full ?self ''bg.jpg'' ''Go'' None =
        \<lparr>returned = None, printed = [''Error adding text to image: '' @ ''No space left on device''],
         save_calls = [(''output/bg_quote.jpg'', final)]\<rparr>"
  proof -
    have 1: "Image_open ?full ''bg.jpg'' = Inr ?img" by (simp add: demo_backend_def)
    have 2: "ImageFont_truetype ?full (font_path ?self) (quote_font_size (img_width ?img)) = Inr ?f"
      using tt by (simp add: ImageFont_truetype_def demo_backend_def)
    have "\<exists>drawn. draw_text_with_outline ?full (vignette ?img)
        (centered_position (img_width ?img, img_height ?img)
           (textbbox ?full ?f (wrap_text ?full ''Go'' ?f (img_width ?img - 2 * 20)) AlignLeft))
        (wrap_text ?full ''Go'' ?f (img_width ?img - 2 * 20)) ?f
        (255, 255, 255, 255) (0, 0, 0, 255) 2 = Inr drawn"
    proof (rule outline_total)
      have w: "wrap_text ?full ''Go'' ?f 1040 = ''Go''" by code_simp
      then have w': "wrap_text ?full ''Go'' ?f (img_width ?img - 2 * 20) = ''Go''"
        by (simp add: Image_new_def)
      show "\<exists>d'. draw_text ?full d xy (wrap_text ?full ''Go'' ?f (img_width ?img - 2 * 20))
          ?f ink al = Inr d'" for d xy ink al
        unfolding w' by (simp add: demo_backend_def)
    qed
    then obtain drawn where 3: "draw_text_with_outline ?full (vignette ?img)
        (centered_position (img_width ?img, img_height ?img)
           (textbbox ?full ?f (wrap_text ?full ''Go'' ?f (img_width ?img - 2 * 20)) AlignLeft))
        (wrap_text ?full ''Go'' ?f (img_width ?img - 2 * 20)) ?f
        (255, 255, 255, 255) (0, 0, 0, 255) 2 = Inr drawn" by blast
    have 4: "save_error ?full (convert_RGB drawn)
        (output_name ?self ''bg.jpg'' None ''_quote.jpg'') = Some (OSError ''No space left on device'')"
      by simp
    from stages[of ?full "''bg.jpg''" ?self "''Go''" None,
        THEN conjunct2, THEN conjunct2, THEN conjunct2, THEN conjunct1, rule_format,
        OF conjI[OF 1 conjI[OF 2 conjI[OF refl conjI[OF refl conjI[OF 3 conjI[OF refl 4]]]]]]]
    show ?thesis by (simp add: demo_output_name)
  qed
  have e: "add_pov_text_to_image demo_backend ?self ''missing.jpg'' ''Go'' None =
     \<lparr>returned = None,
      printed = [''Error adding centered POV text to image: '' @
                 ''No such file or directory: missing.jpg''],
      save_calls = []\<rparr>"
    using stages[of demo_backend "''missing.jpg''" ?self "''Go''" None] miss by simp
  have f: "add_pov_text_to_image demo_backend ?self ''bg.jpg'' ''unprintable'' None =
     \<lparr>returned = None,
      printed = [''Error adding centered POV text to image: '' @ ''invalid glyph data''],
      save_calls = []\<rparr>"
  proof -
    let ?f12 = "\<lparr>font_file = ''DejaVuSans-Bold.ttf'', font_size = 90\<rparr>"
    let ?f18 = "\<lparr>font_file = ''DejaVuSans-Bold.ttf'', font_size = 60\<rparr>"
    have "pov_font_size 1080 = 1080 div 12" by (rule pov_font_size_div) simp_all
    then have 2: "ImageFont_truetype demo_backend (font_path ?self) (pov_font_size (img_width ?img)) =
        Inr ?f12"
      by (simp add: ImageFont_truetype_def demo_backend_def Image_new_def)
    have "pov_quote_font_size 1080 = 1080 div 18" by (rule pov_quote_font_size_div) simp_all
    then have 3: "ImageFont_truetype demo_backend (font_path ?self)
        (pov_quote_font_size (img_width ?img)) = Inr ?f18"
      by (simp add: ImageFont_truetype_def demo_backend_def Image_new_def)
    have 4: "pov_wrap_text demo_backend ''unprintable'' ?f18 (img_width ?img - 2 * 40) =
        Inr ''unprintable''"
      using demo_pov_wrap_unprintable[of "''DejaVuSans-Bold.ttf''"] by (simp add: Image_new_def)
    let ?pos1 = "pov_position (img_width ?img, img_height ?img)
        (textbbox demo_backend ?f12 ''POV'' AlignLeft)"
    let ?pos2 = "quote_position (img_width ?img, img_height ?img)
        (textbbox demo_backend ?f12 ''POV'' AlignLeft)
        (textbbox demo_backend ?f18 ''unprintable'' AlignCenter)"
    have "\<exists>drawn1. pov_draw_text_with_outline demo_backend (vignette ?img) ?pos1 ''POV'' ?f12
        (255, 255, 255, 255) (0, 0, 0, 255) 2 AlignCenter = Inr drawn1"
      by (rule pov_demo_outline_ok) simp
    then have 5: "pov_draw_text_with_outline demo_backend (vignette ?img) ?pos1 ''POV'' ?f12
         (255, 255, 255, 255) (0, 0, 0, 255) 2 AlignCenter = Inl (OSError ''invalid glyph data'') \<or>
       (\<exists>drawn1. pov_draw_text_with_outline demo_backend (vignette ?img) ?pos1 ''POV'' ?f12
            (255, 255, 255, 255) (0, 0, 0, 255) 2 AlignCenter = Inr drawn1 \<and>
          pov_draw_text_with_outline demo_backend drawn1 ?pos2 ''unprintable'' ?f18
            (255, 255, 255, 255) (0, 0, 0, 255) 2 AlignCenter = Inl (OSError ''invalid glyph data''))"
      by (simp add: pov_demo_outline_fails)
    from stages[of demo_backend "''bg.jpg''" ?self "''unprintable''" None,
        THEN conjunct2, THEN conjunct2, THEN conjunct2, THEN conjunct2, THEN conjunct2,
        THEN conjunct2, THEN conjunct2, THEN conjunct2, THEN conjunct1, rule_format,
        OF conjI[OF op conjI[OF 2 conjI[OF 3 conjI[OF 4 conjI[OF refl conjI[OF refl
          conjI[OF refl 5]]]]]]]]
    show ?thesis by simp
  qed
  from a b c d e f show ?thesis by blast
qed

text \<open>
  C9 as stated fails: an unreadable image and a drawing failure raise different
  exceptions inside the call, and the call returns \<open>None\<close> for both.
\<close>

theorem failure_returns_None:
  "fst (try_add_text demo_backend \<lparr>font_path = ''DejaVuSans-Bold.ttf'', output_dir = ''output''\<rparr>
          ''missing.jpg'' ''Go'' None) =
     Inl (FileNotFoundError ''No such file or directory: missing.jpg'') \<and>
   returned (add_text_to_image demo_backend \<lparr>font_path = ''DejaVuSans-Bold.ttf'', output_dir = ''output''\<rparr>
          ''missing.jpg'' ''Go'' None) = None \<and>
   fst (try_add_text demo_backend \<lparr>font_path = ''DejaVuSans-Bold.ttf'', output_dir = ''output''\<rparr>
          ''bg.jpg'' ''unprintable'' None) = Inl (OSError ''invalid glyph data'') \<and>
   returned (add_text_to_image demo_backend \<lparr>font_path = ''DejaVuSans-Bold.ttf'', output_dir = ''output''\<rparr>
          ''bg.jpg'' ''unprintable'' None) = None"
  by (simp add: add_text_outcome demo_missing demo_unprintable)

section \<open>The vignette: which pixels are darkened\<close>

lemma band_box_eq:
  "band_box width height i = (band_lo width i, band_lo height i, band_hi width i, band_hi height i)"
  by (simp add: band_box_def band_lo_def band_hi_def Let_def)

lemma vignette_overlay_upto: "vignette_overlay width height = overlay_upto width height 100"
  by (simp add: vignette_overlay_def overlay_upto_def)

lemma overlay_upto_Suc:
  "overlay_upto width height (Suc n) =
     rectangle (overlay_upto width height n) (band_box width height (int n)) (0, 0, 0, 100 - int n)"
  by (simp add: overlay_upto_def)

lemma overlay_dims:
  "img_width (overlay_upto width height n) = width \<and> img_height (overlay_upto width height n) = height"
proof (induction n)
  case 0
  then show ?case by (simp add: overlay_upto_def Image_new_def)
next
  case (Suc n)
  then show ?case by (simp add: overlay_upto_Suc rectangle_def band_box_eq)
qed

lemma overlay_pix_Suc:
  assumes "0 \<le> x" "x < width" "0 \<le> y" "y < height"
  shows "img_pix (overlay_upto width height (Suc n)) x y =
           (if in_band width height (int n) x y then (0, 0, 0, 100 - int n)
            else img_pix (overlay_upto width height n) x y)"
  using assms overlay_dims[of width height n]
  by (simp add: overlay_upto_Suc rectangle_def band_box_eq in_band_def)

lemma overlay_pix_outer:
  assumes "0 \<le> x" "x < width" "0 \<le> y" "y < height"
    and "in_band width height 0 x y"
    and "\<forall>i. 1 \<le> i \<and> i < int n \<longrightarrow> \<not> in_band width height i x y"
    and "0 < n"
  shows "img_pix (overlay_upto width height n) x y = (0, 0, 0, 100)"
  using assms(6,7)
proof (induction n)
  case 0
  then show ?case by simp
next
  case (Suc n)
  show ?case
  proof (cases "n = 0")
    case True
    then show ?thesis using assms(5) by (simp add: overlay_pix_Suc[OF assms(1-4)])
  next
    case False
    then have n: "0 < n" by simp
    from Suc.prems(1) have a: "\<forall>i. 1 \<le> i \<and> i < int n \<longrightarrow> \<not> in_band width height i x y"
      by simp
    from Suc.prems(1) n have b: "\<not> in_band width height (int n) x y" by simp
    from Suc.IH[OF a n] b show ?thesis by (simp add: overlay_pix_Suc[OF assms(1-4)])
  qed
qed

lemma fl_le_any:
  assumes "q < 2 ^ k" "j + k \<le> 53" "q \<le> of_int m / 2 ^ j" "(0::rat) \<le> of_int m / 2 ^ j"
  shows "fl q \<le> of_int m / 2 ^ j"
proof (cases "0 < q")
  case True
  then show ?thesis using assms(1-3) by (rule fl_le)
next
  case False
  then have "fl q \<le> 0" by (intro fl_nonpos) simp
  with assms(4) show ?thesis by simp
qed

lemma half_exact: "0 \<le> v \<Longrightarrow> v < 2 ^ 31 \<Longrightarrow> fdiv (of_int v) 2 = of_int v / 2"
  unfolding fdiv_def by (rule fl_half_int) simp_all

lemma ratio_bounds:
  assumes "0 \<le> i" "i \<le> 99"
  shows "0 \<le> fdiv (of_int i) 100" and "fdiv (of_int i) 100 \<le> 1"
    and "1 \<le> i \<Longrightarrow> 1 / 2 ^ 7 \<le> fdiv (of_int i) 100"
proof -
  let ?q = "of_int i / 100 :: rat"
  have q0: "0 \<le> ?q" using assms(1) by simp
  have q1: "?q < 2 ^ 0" using assms(2) by simp
  show "0 \<le> fdiv (of_int i) 100" unfolding fdiv_def using q0 by (rule fl_nonneg)
  have "fl ?q \<le> of_int 1 / 2 ^ 0"
    by (rule fl_le_any[OF q1]) (use assms(2) in simp_all)
  then show "fdiv (of_int i) 100 \<le> 1" by (simp add: fdiv_def)
  assume i1: "1 \<le> i"
  then have pos: "0 < ?q" by simp
  have "(1::rat) \<le> of_int i" using i1 by simp
  then have ge: "of_int 1 / 2 ^ 7 \<le> ?q" by simp
  have "of_int 1 / 2 ^ 7 \<le> fl ?q"
    by (rule fl_ge[OF pos q1 _ ge]) simp
  then show "1 / 2 ^ 7 \<le> fdiv (of_int i) 100" by (simp add: fdiv_def)
qed

lemma shrink_bounds:
  assumes "0 \<le> i" "i \<le> 99"
  shows "0 \<le> fsub 1 (fdiv (of_int i) 100)" and "fsub 1 (fdiv (of_int i) 100) \<le> 1"
    and "1 \<le> i \<Longrightarrow> fsub 1 (fdiv (of_int i) 100) \<le> 127 / 2 ^ 7"
proof -
  let ?a = "fdiv (of_int i) 100"
  note a = ratio_bounds[OF assms]
  have q1: "1 - ?a < 2 ^ 1" using a(1) by simp
  show "0 \<le> fsub 1 ?a" unfolding fsub_def using a(2) by (intro fl_nonneg) simp
  have "fl (1 - ?a) \<le> of_int 1 / 2 ^ 0"
    by (rule fl_le_any[OF q1]) (use a(1) in simp_all)
  then show "fsub 1 ?a \<le> 1" by (simp add: fsub_def)
  assume "1 \<le> i"
  from a(3)[OF this] have "1 - ?a \<le> of_int 127 / 2 ^ 7" by simp
  then have "fl (1 - ?a) \<le> of_int 127 / 2 ^ 7"
    by (intro fl_le_any[OF q1]) simp_all
  then show "fsub 1 ?a \<le> 127 / 2 ^ 7" by (simp add: fsub_def)
qed

lemma inner_bounds:
  assumes "0 \<le> i" "i \<le> 99" "0 \<le> v" "v < 2 ^ 31"
  shows "0 \<le> fmul (of_int v / 2) (fsub 1 (fdiv (of_int i) 100))"
    and "fmul (of_int v / 2) (fsub 1 (fdiv (of_int i) 100)) \<le> of_int v / 2"
    and "1 \<le> i \<Longrightarrow> fmul (of_int v / 2) (fsub 1 (fdiv (of_int i) 100)) \<le> of_int (127 * v) / 2 ^ 8"
proof -
  let ?s = "fsub 1 (fdiv (of_int i) 100)"
  let ?h = "of_int v / 2 :: rat"
  note s = shrink_bounds[OF assms(1,2)]
  have h0: "0 \<le> ?h" using assms(3) by simp
  have vlt: "(of_int v :: rat) < 2 ^ 31" using assms(4) by (rule rat_less_pow)
  have le: "?h * ?s \<le> ?h" using h0 s(2) by (simp add: mult_left_le)
  have q1: "?h * ?s < 2 ^ 31" using le vlt h0 by linarith
  show "0 \<le> fmul ?h ?s" unfolding fmul_def using h0 s(1) by (intro fl_nonneg) simp
  have "fl (?h * ?s) \<le> of_int v / 2 ^ 1"
    by (rule fl_le_any[OF q1]) (use le h0 in simp_all)
  then show "fmul ?h ?s \<le> ?h" by (simp add: fmul_def)
  assume "1 \<le> i"
  from s(3)[OF this] h0 have "?h * ?s \<le> ?h * (127 / 2 ^ 7)" by (intro mult_left_mono)
  then have le2: "?h * ?s \<le> of_int (127 * v) / 2 ^ 8" by simp
  have "fl (?h * ?s) \<le> of_int (127 * v) / 2 ^ 8"
    by (rule fl_le_any[OF q1 _ le2]) (use assms(3) in simp_all)
  then show "fmul ?h ?s \<le> of_int (127 * v) / 2 ^ 8" by (simp add: fmul_def)
qed

lemma band_lo_le:
  assumes "0 \<le> i" "i \<le> 99" "0 \<le> v" "v < 2 ^ 31"
  shows "band_lo v i \<le> of_int v / 2"
proof -
  let ?t = "fmul (of_int v / 2) (fsub 1 (fdiv (of_int i) 100))"
  note t = inner_bounds[OF assms]
  have vlt: "(of_int v :: rat) < 2 ^ 31" using assms(4) by (rule rat_less_pow)
  have h0: "(0::rat) \<le> of_int v / 2" using assms(3) by simp
  have q1: "of_int v / 2 - ?t < 2 ^ 31" using t(1) vlt h0 by linarith
  have "fl (of_int v / 2 - ?t) \<le> of_int v / 2 ^ 1"
    by (rule fl_le_any[OF q1]) (use t(1) h0 in simp_all)
  then show ?thesis by (simp add: band_lo_def half_exact[OF assms(3,4)] fsub_def)
qed

lemma band_hi_ge:
  assumes "0 \<le> i" "i \<le> 99" "0 \<le> v" "v < 2 ^ 31"
  shows "of_int v / 2 \<le> band_hi v i"
proof (cases "v = 0")
  case True
  then show ?thesis
    by (simp add: band_hi_def fdiv_def fmul_def fadd_def fl_def)
next
  case False
  with assms(3) have vpos: "(0::rat) < of_int v" by simp
  let ?t = "fmul (of_int v / 2) (fsub 1 (fdiv (of_int i) 100))"
  note t = inner_bounds[OF assms]
  have vlt: "(of_int v :: rat) < 2 ^ 31" using assms(4) by (rule rat_less_pow)
  have q0: "0 < of_int v / 2 + ?t" using t(1) vpos by simp
  have q1: "of_int v / 2 + ?t < 2 ^ 31" using t(2) vlt by linarith
  have "of_int v / 2 ^ 1 \<le> fl (of_int v / 2 + ?t)"
    by (rule fl_ge[OF q0 q1]) (use t(1) in simp_all)
  then show ?thesis by (simp add: band_hi_def half_exact[OF assms(3,4)] fadd_def)
qed

lemma band_lo_ge_1:
  assumes "1 \<le> i" "i \<le> 99" "256 \<le> v" "v < 2 ^ 31"
  shows "1 \<le> band_lo v i"
proof -
  have i0: "0 \<le> i" and v0: "0 \<le> v" using assms by simp_all
  let ?t = "fmul (of_int v / 2) (fsub 1 (fdiv (of_int i) 100))"
  note t = inner_bounds[OF i0 assms(2) v0 assms(4)]
  have vlt: "(of_int v :: rat) < 2 ^ 31" using assms(4) by (rule rat_less_pow)
  have v256: "(256::rat) \<le> of_int v" using assms(3) by simp
  have "of_int v / 2 - of_int (127 * v) / 2 ^ 8 \<le> of_int v / 2 - ?t" using t(3)[OF assms(1)] by simp
  moreover have "(of_int v / 2 - of_int (127 * v) / 2 ^ 8 :: rat) = of_int v / 256" by simp
  ultimately have ge: "of_int 1 / 2 ^ 0 \<le> of_int v / 2 - ?t" using v256 by simp
  then have q0: "0 < of_int v / 2 - ?t" by simp
  have q1: "of_int v / 2 - ?t < 2 ^ 31" using t(1) vlt v256 by linarith
  have "of_int 1 / 2 ^ 0 \<le> fl (of_int v / 2 - ?t)"
    by (rule fl_ge[OF q0 q1 _ ge]) simp
  then show ?thesis by (simp add: band_lo_def half_exact[OF v0 assms(4)] fsub_def)
qed

lemma band_0:
  assumes "0 \<le> v" "v < 2 ^ 31"
  shows "band_lo v 0 = 0" and "band_hi v 0 = of_int v"
proof -
  have v53: "v < 2 ^ 53" "v < 2 ^ 52" using assms(2) by simp_all
  have one: "fl 1 = 1" using fl_int[of 1] by simp
  have h: "fl (of_int v / 2) = of_int v / 2" using assms(1) v53 by (intro fl_half_int)
  have f0: "fl 0 = 0" by (simp add: fl_def)
  have fv: "fl (of_int v) = of_int v" using assms(1) v53 by (intro fl_int)
  show "band_lo v 0 = 0"
    by (simp add: band_lo_def fdiv_def fsub_def fmul_def f0 one h)
  show "band_hi v 0 = of_int v"
    by (simp add: band_hi_def fdiv_def fsub_def fmul_def fadd_def f0 one h fv)
qed

lemma py_int_half: "0 \<le> v \<Longrightarrow> py_int (of_int v / 2) = v div 2"
proof -
  assume "0 \<le> v"
  then have "(0::rat) \<le> of_int v / 2" by simp
  moreover have "\<lfloor>of_int v / of_int 2 :: rat\<rfloor> = v div 2" by (rule floor_divide_of_int_eq)
  ultimately show ?thesis by (simp add: py_int_def)
qed

lemma centre_in_band:
  assumes "0 \<le> i" "i \<le> 99" "0 \<le> width" "width < 2 ^ 31" "0 \<le> height" "height < 2 ^ 31"
  shows "in_band width height i (width div 2) (height div 2)"
proof -
  have "py_int (band_lo width i) \<le> width div 2"
    using py_int_mono[OF band_lo_le[OF assms(1-4)]] by (simp add: py_int_half[OF assms(3)])
  moreover have "width div 2 \<le> py_int (band_hi width i)"
    using py_int_mono[OF band_hi_ge[OF assms(1-4)]] by (simp add: py_int_half[OF assms(3)])
  moreover have "py_int (band_lo height i) \<le> height div 2"
    using py_int_mono[OF band_lo_le[OF assms(1,2,5,6)]] by (simp add: py_int_half[OF assms(5)])
  moreover have "height div 2 \<le> py_int (band_hi height i)"
    using py_int_mono[OF band_hi_ge[OF assms(1,2,5,6)]] by (simp add: py_int_half[OF assms(5)])
  ultimately show ?thesis by (simp add: in_band_def)
qed

lemma corner_not_in_band:
  assumes "1 \<le> i" "i \<le> 99" "256 \<le> width" "width < 2 ^ 31"
  shows "\<not> in_band width height i 0 y"
proof -
  have "py_int 1 \<le> py_int (band_lo width i)"
    by (rule py_int_mono[OF band_lo_ge_1[OF assms]])
  then have "1 \<le> py_int (band_lo width i)" by (simp add: py_int_def)
  then show ?thesis by (simp add: in_band_def)
qed

lemma corner_in_band_0:
  assumes "0 \<le> width" "width < 2 ^ 31" "0 \<le> height" "height < 2 ^ 31"
  shows "in_band width height 0 0 0"
  using assms by (simp add: in_band_def band_0 py_int_def)

lemma overlay_centre:
  assumes "1 \<le> width" "width < 2 ^ 31" "1 \<le> height" "height < 2 ^ 31"
  shows "img_pix (vignette_overlay width height) (width div 2) (height div 2) = (0, 0, 0, 1)"
proof -
  have b: "in_band width height (int 99) (width div 2) (height div 2)"
    by (rule centre_in_band) (use assms in simp_all)
  have "img_pix (overlay_upto width height (Suc 99)) (width div 2) (height div 2) =
      (if in_band width height (int 99) (width div 2) (height div 2) then (0, 0, 0, 100 - int 99)
       else img_pix (overlay_upto width height 99) (width div 2) (height div 2))"
    by (rule overlay_pix_Suc) (use assms in simp_all)
  with b show ?thesis by (simp add: vignette_overlay_upto)
qed

lemma overlay_corner:
  assumes "256 \<le> width" "width < 2 ^ 31" "1 \<le> height" "height < 2 ^ 31"
  shows "img_pix (vignette_overlay width height) 0 0 = (0, 0, 0, 100)"
  unfolding vignette_overlay_upto
proof (rule overlay_pix_outer)
  show "in_band width height 0 0 0" by (rule corner_in_band_0) (use assms in simp_all)
  show "\<forall>i. 1 \<le> i \<and> i < int 100 \<longrightarrow> \<not> in_band width height i 0 0"
    using corner_not_in_band[OF _ _ assms(1,2)] by simp
qed (use assms in simp_all)

lemma vignette_pix:
  "img_pix (vignette img) x y =
     composite_pixel (img_pix img x y)
       (img_pix (vignette_overlay (img_width img) (img_height img)) x y)"
  by (simp add: vignette_def alpha_composite_def)

text \<open>
  C1 fails on the code. Every rectangle of the loop overwrites the pixels it covers, so
  that a pixel keeps the alpha of the smallest band that holds it. For an image at least
  256 pixels wide (and below \<open>2\<^sup>3\<^sup>1\<close> in both directions), the centre pixel lies in the
  last band and gets the overlay alpha 1, and the corner pixel lies in the first band
  only and gets the overlay alpha 100: the corner, the pixel farthest from the centre, is
  darkened most, and the centre is darkened least. On the sample background of \<open>main\<close>
  (1080 x 1920, colour (20, 20, 30)) the centre keeps its colour and the corner becomes
  (12, 12, 18).
\<close>

theorem vignette_darkens_edge_not_centre:
  assumes "256 \<le> img_width img" "img_width img < 2 ^ 31"
    and "1 \<le> img_height img" "img_height img < 2 ^ 31"
  shows "img_pix (vignette_overlay (img_width img) (img_height img))
           (img_width img div 2) (img_height img div 2) = (0, 0, 0, 1) \<and>
         img_pix (vignette_overlay (img_width img) (img_height img)) 0 0 = (0, 0, 0, 100) \<and>
         img_pix (vignette img) (img_width img div 2) (img_height img div 2) =
           composite_pixel (img_pix img (img_width img div 2) (img_height img div 2)) (0, 0, 0, 1) \<and>
         img_pix (vignette img) 0 0 = composite_pixel (img_pix img 0 0) (0, 0, 0, 100)"
proof -
  have c: "img_pix (vignette_overlay (img_width img) (img_height img))
           (img_width img div 2) (img_height img div 2) = (0, 0, 0, 1)"
    by (rule overlay_centre) (use assms in simp_all)
  have e: "img_pix (vignette_overlay (img_width img) (img_height img)) 0 0 = (0, 0, 0, 100)"
    by (rule overlay_corner) (use assms in simp_all)
  show ?thesis by (simp add: vignette_pix c e)
qed

theorem vignette_darkens_edge_not_centre_witness:
  "img_pix (vignette (Image_new (1080, 1920) (20, 20, 30, 255))) 540 960 = (20, 20, 30, 255) \<and>
   img_pix (vignette (Image_new (1080, 1920) (20, 20, 30, 255))) 0 0 = (12, 12, 18, 255)"
proof -
  let ?img = "Image_new (1080, 1920) (20, 20, 30, 255)"
  have h: "256 \<le> img_width ?img" "img_width ?img < 2 ^ 31"
          "1 \<le> img_height ?img" "img_height ?img < 2 ^ 31"
    by (simp_all add: Image_new_def)
  have c1: "composite_pixel (20, 20, 30, 255) (0, 0, 0, 1) = (20, 20, 30, 255)"
    by (simp add: composite_pixel_def shift_div255_def Let_def)
  have c2: "composite_pixel (20, 20, 30, 255) (0, 0, 0, 100) = (12, 12, 18, 255)"
    by (simp add: composite_pixel_def shift_div255_def Let_def)
  from vignette_darkens_edge_not_centre[OF h]
  show ?thesis by (simp add: Image_new_def c1 c2)
qed

end
